theory Spec2Isabelle
  imports Main "HOL-Library.Word" "HOL-Library.Log_Nat" "HOL-Library.Multiset"
begin

section \<open>Python values\<close>

text \<open>
  A Python \<^verbatim>\<open>str\<close> is a sequence of Unicode code points, so a string is a list of
  naturals (the code points); \<open>u\<close> turns an ASCII literal into such a string.
\<close>

type_synonym pystr = "nat list"

definition u :: "string \<Rightarrow> pystr" where
  "u s = map of_char s"

text \<open>The exceptions that the modelled code can meet; all are subclasses of \<^verbatim>\<open>Exception\<close>.\<close>

datatype py_exception =
  GatewayError | JSONDecodeError | TypeError | ValueError | OverflowError
  | AttributeError | ValidationError

text \<open>
  What \<^verbatim>\<open>json.loads\<close> can return. A \<^verbatim>\<open>dict\<close> keeps its items in insertion order,
  which for a parsed object is the order of the keys in the text, so an object is the
  list of its items. \<open>JFloat q\<close> is a finite float, \<open>q\<close> its exact value; \<^verbatim>\<open>json.loads\<close>
  also accepts \<^verbatim>\<open>NaN\<close>, \<^verbatim>\<open>Infinity\<close> and \<^verbatim>\<open>-Infinity\<close>.
\<close>

datatype json =
  JNull | JBool bool | JInt int | JFloat rat | JNaN | JInfinity bool
  | JStr pystr | JArr "json list" | JObj "(pystr \<times> json) list"

text \<open>Python's truth value of a parsed JSON value (\<^verbatim>\<open>if content\<close>).\<close>

fun truthy :: "json \<Rightarrow> bool" where
  "truthy JNull = False"
| "truthy (JBool b) = b"
| "truthy (JInt n) = (n \<noteq> 0)"
| "truthy (JFloat q) = (q \<noteq> 0)"
| "truthy JNaN = True"
| "truthy (JInfinity s) = True"
| "truthy (JStr s) = (s \<noteq> [])"
| "truthy (JArr xs) = (xs \<noteq> [])"
| "truthy (JObj kvs) = (kvs \<noteq> [])"

text \<open>\<^verbatim>\<open>d.get(key, default)\<close> on the items of a \<^verbatim>\<open>dict\<close>.\<close>

definition dict_get :: "(pystr \<times> json) list \<Rightarrow> pystr \<Rightarrow> json \<Rightarrow> json" where
  "dict_get d k dflt = (case map_of d k of Some v \<Rightarrow> v | None \<Rightarrow> dflt)"

text \<open>\<^verbatim>\<open>sep.join(xs)\<close>.\<close>

fun join :: "pystr \<Rightarrow> pystr list \<Rightarrow> pystr" where
  "join sep [] = []"
| "join sep [x] = x"
| "join sep (x # y # ys) = x @ sep @ join sep (y # ys)"

section \<open>models/schemas.py\<close>

record ScoreResult =
  clarity :: int
  impact :: int
  relevance :: int
  completeness :: int
  ats_score :: int

record RewriteSuggestion =
  original :: pystr
  improved :: pystr
  explanation :: pystr

record ResumeSection =
  name :: pystr
  content :: pystr
  start_index :: int
  end_index :: int

record ResumeData =
  raw_text :: pystr
  file_name :: pystr
  file_type :: pystr
  sections :: "ResumeSection list"
  word_count :: int

section \<open>The model gateway\<close>

text \<open>
  Every gateway-backed method builds two messages (a fixed system prompt and a user
  message), calls \<^verbatim>\<open>client.chat.completions.create\<close> and hands the reply to
  \<^verbatim>\<open>json.loads\<close>. The service and the JSON parser are outside the repository: a gateway
  is any function from the request to the outcome of these two steps, \<open>Inl\<close> the
  exception raised by either of them and \<open>Inr\<close> the parsed value.
\<close>

datatype system_prompt =
  SECTION_DETECTION_PROMPT | SCORING_SYSTEM_PROMPT | ANALYSIS_SYSTEM_PROMPT
  | REWRITE_SYSTEM_PROMPT

record request =
  system_content :: system_prompt
  user_content :: pystr

type_synonym gateway = "request \<Rightarrow> py_exception + json"

subsection \<open>utils/helpers.py: truncate_text\<close>

text \<open>\<^verbatim>\<open>s.rfind(c)\<close>: the last index of \<open>c\<close>, or \<open>-1\<close>.\<close>

definition rfind :: "pystr \<Rightarrow> nat \<Rightarrow> int" where
  "rfind s c =
     (if c \<in> set s then int (length s) - 1 - int (length (takeWhile (\<lambda>x. x \<noteq> c) (rev s)))
      else - 1)"

text \<open>
  The source compares \<^verbatim>\<open>cut_point > max_chars * 0.8\<close>; for the two limits in use
  (15000 and 5000) the product is the exact integer, and the comparison is written
  here without the division.
\<close>

definition truncate_text :: "pystr \<Rightarrow> nat \<Rightarrow> pystr" where
  "truncate_text text max_chars =
     (if length text \<le> max_chars then text
      else
        let truncated = take max_chars text;
            last_period = rfind truncated 46;
            last_newline = rfind truncated 10;
            cut_point = max last_period last_newline;
            truncated' = (if 10 * cut_point > 8 * int max_chars
                          then take (nat (cut_point + 1)) truncated else truncated)
        in truncated' @ [10, 10] @ u ''[Content truncated for length...]'')"

subsection \<open>prompts/templates.py: the user prompts\<close>

definition get_scoring_user_prompt :: "pystr \<Rightarrow> pystr" where
  "get_scoring_user_prompt resume_text =
     u ''Score this resume according to the rubric:'' @ [10, 10]
     @ u ''---RESUME START---'' @ [10] @ resume_text @ [10] @ u ''---RESUME END---''
     @ [10, 10] @ u ''Return only the JSON scores.''"

definition get_rewrite_user_prompt :: "pystr list \<Rightarrow> pystr" where
  "get_rewrite_user_prompt bullet_points =
     (let bullets_text = join [10] (map (\<lambda>bp. u ''- '' @ bp) bullet_points)
      in u ''Please improve these resume bullet points:'' @ [10, 10] @ bullets_text
         @ [10, 10] @ u ''Transform each into an impactful, action-oriented statement.'')"

section \<open>core/scorer.py: get_improvement_priority\<close>

text \<open>
  \<^verbatim>\<open>sorted(items, key=...)\<close> is a stable sort; so is \<open>sort_key\<close>, and a stable sort
  has one result only.
\<close>

definition score_dict :: "ScoreResult \<Rightarrow> (pystr \<times> int) list" where
  "score_dict scores =
     [(u ''clarity'', clarity scores),
      (u ''impact'', impact scores),
      (u ''relevance'', relevance scores),
      (u ''completeness'', completeness scores),
      (u ''ats_score'', ats_score scores)]"

definition get_improvement_priority :: "ScoreResult \<Rightarrow> pystr list" where
  "get_improvement_priority scores =
     (let sorted_criteria = sort_key snd (score_dict scores)
      in map fst sorted_criteria)"

section \<open>core/analyzer.py: detect_sections\<close>

text \<open>
  The loop over \<^verbatim>\<open>sections_data.items()\<close>. \<^verbatim>\<open>ResumeSection\<close> is a pydantic (v2) model
  whose \<^verbatim>\<open>content\<close> is a \<^verbatim>\<open>str\<close>: a value that passes the test and is not a string
  fails validation, and the exception leaves the loop.
\<close>

fun build_sections ::
  "(pystr \<times> json) list \<Rightarrow> ResumeSection list \<Rightarrow> py_exception + ResumeSection list" where
  "build_sections [] secs = Inr secs"
| "build_sections ((section_name, v) # rest) secs =
     (if truthy v \<and> v \<noteq> JStr (u ''null'') then
        (case v of
           JStr s \<Rightarrow>
             build_sections rest
               (secs @ [\<lparr>name = section_name, content = s, start_index = 0, end_index = 0\<rparr>])
         | _ \<Rightarrow> Inl ValidationError)
      else build_sections rest secs)"

definition full_resume_section :: "ResumeData \<Rightarrow> ResumeSection" where
  "full_resume_section resume =
     \<lparr>name = u ''full_resume'', content = raw_text resume, start_index = 0, end_index = 0\<rparr>"

definition detect_request :: "ResumeData \<Rightarrow> request" where
  "detect_request resume =
     \<lparr>system_content = SECTION_DETECTION_PROMPT,
      user_content = truncate_text (raw_text resume) 15000\<rparr>"

text \<open>
  A parsed value that is not a \<^verbatim>\<open>dict\<close> has no \<^verbatim>\<open>items\<close>: the AttributeError is caught
  like every other exception of the \<^verbatim>\<open>try\<close> block.
\<close>

definition detect_sections :: "gateway \<Rightarrow> ResumeData \<Rightarrow> ResumeData" where
  "detect_sections gw resume =
     (let fallback = resume\<lparr>sections := [full_resume_section resume]\<rparr> in
      case gw (detect_request resume) of
        Inl e \<Rightarrow> fallback
      | Inr sections_data \<Rightarrow>
          (case sections_data of
             JObj items \<Rightarrow>
               (case build_sections items [] of
                  Inl e \<Rightarrow> fallback
                | Inr secs \<Rightarrow> resume\<lparr>sections := secs\<rparr>)
           | _ \<Rightarrow> fallback))"

section \<open>core/rewriter.py: rewrite_bullets\<close>

text \<open>
  What a \<^verbatim>\<open>for\<close> loop iterates over: the elements of a list, the characters of a
  string, the keys of a dict; anything else is not iterable.
\<close>

fun py_iter :: "json \<Rightarrow> py_exception + json list" where
  "py_iter (JArr xs) = Inr xs"
| "py_iter (JStr s) = Inr (map (\<lambda>c. JStr [c]) s)"
| "py_iter (JObj kvs) = Inr (map (\<lambda>kv. JStr (fst kv)) kvs)"
| "py_iter v = Inl TypeError"

text \<open>
  One \<^verbatim>\<open>RewriteSuggestion(...)\<close>: the entry must have a \<^verbatim>\<open>get\<close> (be a dict), and the
  three fields must validate as strings.
\<close>

definition make_suggestion :: "json \<Rightarrow> py_exception + RewriteSuggestion" where
  "make_suggestion rewrite =
     (case rewrite of
        JObj d \<Rightarrow>
          (case (dict_get d (u ''original'') (JStr []),
                 dict_get d (u ''improved'') (JStr []),
                 dict_get d (u ''explanation'') (JStr [])) of
             (JStr a, JStr b, JStr c) \<Rightarrow>
               Inr \<lparr>original = a, improved = b, explanation = c\<rparr>
           | _ \<Rightarrow> Inl ValidationError)
      | _ \<Rightarrow> Inl AttributeError)"

fun collect_suggestions ::
  "json list \<Rightarrow> RewriteSuggestion list \<Rightarrow> py_exception + RewriteSuggestion list" where
  "collect_suggestions [] suggestions = Inr suggestions"
| "collect_suggestions (rewrite # rest) suggestions =
     (case make_suggestion rewrite of
        Inl e \<Rightarrow> Inl e
      | Inr s \<Rightarrow> collect_suggestions rest (suggestions @ [s]))"

definition parse_rewrites :: "json \<Rightarrow> py_exception + RewriteSuggestion list" where
  "parse_rewrites rewrite_data =
     (case rewrite_data of
        JObj d \<Rightarrow>
          (case py_iter (dict_get d (u ''rewrites'') (JArr [])) of
             Inl e \<Rightarrow> Inl e
           | Inr rewrites \<Rightarrow> collect_suggestions rewrites [])
      | _ \<Rightarrow> Inl AttributeError)"

definition rewrite_request :: "pystr list \<Rightarrow> request" where
  "rewrite_request bullet_points =
     \<lparr>system_content = REWRITE_SYSTEM_PROMPT,
      user_content = get_rewrite_user_prompt bullet_points\<rparr>"

text \<open>
  The result is paired with the list of the requests sent to the gateway, so that
  "no call" is a statement about the function.
\<close>

definition rewrite_bullets ::
  "gateway \<Rightarrow> pystr list \<Rightarrow> RewriteSuggestion list \<times> request list" where
  "rewrite_bullets gw bullet_points =
     (if bullet_points = [] then ([], [])
      else
        let req = rewrite_request bullet_points in
        (case gw req of
           Inl e \<Rightarrow> []
         | Inr rewrite_data \<Rightarrow>
             (case parse_rewrites rewrite_data of
                Inl e \<Rightarrow> []
              | Inr suggestions \<Rightarrow> suggestions),
         [req]))"

section \<open>core/parser.py: _parse_txt\<close>

text \<open>
  \<^verbatim>\<open>bytes.decode\<close> belongs to the interpreter. The strict decoders of utf-8, utf-16 and
  cp1252 (\<open>None\<close> is UnicodeDecodeError) and the replacing utf-8 decoder are taken as
  parameters; latin-1 maps each byte to the code point of the same number.
\<close>

type_synonym bytes = "8 word list"

datatype encoding = UTF8 | UTF16 | LATIN1 | CP1252

record codecs =
  utf8_strict :: "bytes \<Rightarrow> pystr option"
  utf16_strict :: "bytes \<Rightarrow> pystr option"
  cp1252_strict :: "bytes \<Rightarrow> pystr option"
  utf8_replace :: "bytes \<Rightarrow> pystr"

definition latin1_decode :: "bytes \<Rightarrow> pystr" where
  "latin1_decode file_bytes = map unat file_bytes"

fun decode :: "codecs \<Rightarrow> encoding \<Rightarrow> bytes \<Rightarrow> pystr option" where
  "decode cd UTF8 file_bytes = utf8_strict cd file_bytes"
| "decode cd UTF16 file_bytes = utf16_strict cd file_bytes"
| "decode cd LATIN1 file_bytes = Some (latin1_decode file_bytes)"
| "decode cd CP1252 file_bytes = cp1252_strict cd file_bytes"

text \<open>
  Where the text came from: the encoding whose attempt returned, or the fallback after
  the loop.
\<close>

datatype txt_source = Decoded encoding | Replaced

fun try_encodings :: "codecs \<Rightarrow> encoding list \<Rightarrow> bytes \<Rightarrow> pystr \<times> txt_source" where
  "try_encodings cd [] file_bytes = (utf8_replace cd file_bytes, Replaced)"
| "try_encodings cd (encoding # rest) file_bytes =
     (case decode cd encoding file_bytes of
        Some text \<Rightarrow> (text, Decoded encoding)
      | None \<Rightarrow> try_encodings cd rest file_bytes)"

definition encodings :: "encoding list" where
  "encodings = [UTF8, UTF16, LATIN1, CP1252]"

definition parse_txt_from :: "codecs \<Rightarrow> bytes \<Rightarrow> pystr \<times> txt_source" where
  "parse_txt_from cd file_bytes = try_encodings cd encodings file_bytes"

definition parse_txt :: "codecs \<Rightarrow> bytes \<Rightarrow> pystr" where
  "parse_txt cd file_bytes = fst (parse_txt_from cd file_bytes)"

section \<open>IEEE double arithmetic\<close>

text \<open>
  A finite Python \<^verbatim>\<open>float\<close> is the rational number it denotes. \<open>fl\<close> rounds a rational
  to the nearest double (53-bit significand, ties to even), as every float operation
  does with its exact result; it is the rounding of the normal range, where all
  numbers of the score arithmetic are (between 0.15 and 10).
\<close>

text \<open>\<open>expo q\<close> is the exponent of the binade of \<open>q > 0\<close>: \<open>2 ^ expo q \<le> q < 2 ^ (expo q + 1)\<close>.\<close>

definition expo :: "rat \<Rightarrow> int" where
  "expo q =
     (if 1 \<le> q then int (floorlog 2 (nat \<lfloor>q\<rfloor>)) - 1
      else - int (floorlog 2 (nat (\<lceil>1 / q\<rceil> - 1))))"

text \<open>Rounding to the nearest integer, ties to the even one.\<close>

definition rne :: "rat \<Rightarrow> int" where
  "rne q =
     (let f = \<lfloor>q\<rfloor>; r = q - of_int f
      in if r < 1 / 2 then f else if 1 / 2 < r then f + 1 else if even f then f else f + 1)"

definition pow2 :: "int \<Rightarrow> rat" where
  "pow2 e = (if 0 \<le> e then 2 ^ nat e else 1 / 2 ^ nat (- e))"

definition fl :: "rat \<Rightarrow> rat" where
  "fl q = (if q = 0 then 0 else of_int (rne (q / pow2 (expo \<bar>q\<bar> - 52))) * pow2 (expo \<bar>q\<bar> - 52))"

definition fmul :: "rat \<Rightarrow> rat \<Rightarrow> rat" where
  "fmul a b = fl (a * b)"

definition fadd :: "rat \<Rightarrow> rat \<Rightarrow> rat" where
  "fadd a b = fl (a + b)"

text \<open>
  \<^verbatim>\<open>round(x, 1)\<close> of a float: the decimal with one digit nearest to the exact value
  of \<open>x\<close> (ties to the even digit), converted back to the nearest double.
\<close>

definition py_round1 :: "rat \<Rightarrow> rat" where
  "py_round1 x = fl (of_int (rne (x * 10)) / 10)"

section \<open>models/schemas.py: overall and grade\<close>

text \<open>
  The property multiplies each stored integer (converted exactly) by its weight, a float
  literal, and adds the five products from left to right.
\<close>

definition overall :: "ScoreResult \<Rightarrow> rat" where
  "overall self =
     (let w_clarity = fl (20 / 100);
          w_impact = fl (25 / 100);
          w_relevance = fl (20 / 100);
          w_completeness = fl (15 / 100);
          w_ats_score = fl (20 / 100)
      in py_round1
           (fadd (fadd (fadd (fadd
              (fmul (of_int (clarity self)) w_clarity)
              (fmul (of_int (impact self)) w_impact))
              (fmul (of_int (relevance self)) w_relevance))
              (fmul (of_int (completeness self)) w_completeness))
              (fmul (of_int (ats_score self)) w_ats_score)))"

definition grade :: "ScoreResult \<Rightarrow> pystr" where
  "grade self =
     (let score = overall self
      in if score \<ge> 9 then u ''A+''
         else if score \<ge> 8 then u ''A''
         else if score \<ge> 7 then u ''B''
         else if score \<ge> 6 then u ''C''
         else if score \<ge> 5 then u ''D''
         else u ''F'')"

section \<open>core/scorer.py: score\<close>

text \<open>
  \<^verbatim>\<open>int(x)\<close> of a parsed JSON value: a float is truncated towards zero, a string is
  parsed as an integer literal. The parser of literals is the interpreter's and is
  taken as the parameter \<open>int_of_str\<close> (\<open>None\<close> is ValueError).
\<close>

definition trunc :: "rat \<Rightarrow> int" where
  "trunc q = (if 0 \<le> q then \<lfloor>q\<rfloor> else \<lceil>q\<rceil>)"

fun py_int :: "(pystr \<Rightarrow> int option) \<Rightarrow> json \<Rightarrow> py_exception + int" where
  "py_int int_of_str (JInt n) = Inr n"
| "py_int int_of_str (JBool b) = Inr (if b then 1 else 0)"
| "py_int int_of_str (JFloat q) = Inr (trunc q)"
| "py_int int_of_str JNaN = Inl ValueError"
| "py_int int_of_str (JInfinity s) = Inl OverflowError"
| "py_int int_of_str (JStr s) = (case int_of_str s of Some n \<Rightarrow> Inr n | None \<Rightarrow> Inl ValueError)"
| "py_int int_of_str JNull = Inl TypeError"
| "py_int int_of_str (JArr xs) = Inl TypeError"
| "py_int int_of_str (JObj kvs) = Inl TypeError"

definition clamp_score :: "(pystr \<Rightarrow> int option) \<Rightarrow> json \<Rightarrow> py_exception + int" where
  "clamp_score int_of_str score =
     (case py_int int_of_str score of
        Inl e \<Rightarrow> Inl e
      | Inr n \<Rightarrow> Inr (max 1 (min 10 n)))"

definition neutral_scores :: ScoreResult where
  "neutral_scores =
     \<lparr>clarity = 5, impact = 5, relevance = 5, completeness = 5, ats_score = 5\<rparr>"

definition score_request :: "ResumeData \<Rightarrow> request" where
  "score_request resume =
     \<lparr>system_content = SCORING_SYSTEM_PROMPT,
      user_content = get_scoring_user_prompt (truncate_text (raw_text resume) 15000)\<rparr>"

text \<open>
  The scorer keeps the explanations of its last successful reply in a field of its own:
  \<open>score\<close> takes the old value of the field and returns the new one with the result.
  The field is assigned before the five scores are converted. The clamped scores always
  pass the range validation of \<^verbatim>\<open>ScoreResult\<close>.
\<close>

definition score ::
  "(pystr \<Rightarrow> int option) \<Rightarrow> gateway \<Rightarrow> json \<Rightarrow> ResumeData \<Rightarrow> ScoreResult \<times> json" where
  "score int_of_str gw score_explanations resume =
     (case gw (score_request resume) of
        Inl e \<Rightarrow> (neutral_scores, score_explanations)
      | Inr score_data \<Rightarrow>
          (case score_data of
             JObj d \<Rightarrow>
               (let score_explanations' = dict_get d (u ''score_explanations'') (JObj []) in
                case clamp_score int_of_str (dict_get d (u ''clarity'') (JInt 5)) of
                  Inl e \<Rightarrow> (neutral_scores, score_explanations')
                | Inr c \<Rightarrow>
                case clamp_score int_of_str (dict_get d (u ''impact'') (JInt 5)) of
                  Inl e \<Rightarrow> (neutral_scores, score_explanations')
                | Inr i \<Rightarrow>
                case clamp_score int_of_str (dict_get d (u ''relevance'') (JInt 5)) of
                  Inl e \<Rightarrow> (neutral_scores, score_explanations')
                | Inr r \<Rightarrow>
                case clamp_score int_of_str (dict_get d (u ''completeness'') (JInt 5)) of
                  Inl e \<Rightarrow> (neutral_scores, score_explanations')
                | Inr k \<Rightarrow>
                case clamp_score int_of_str (dict_get d (u ''ats_score'') (JInt 5)) of
                  Inl e \<Rightarrow> (neutral_scores, score_explanations')
                | Inr a \<Rightarrow>
                    (\<lparr>clarity = c, impact = i, relevance = r, completeness = k, ats_score = a\<rparr>,
                     score_explanations'))
           | _ \<Rightarrow> (neutral_scores, score_explanations)))"

section \<open>utils/helpers.py: clean_text\<close>

text \<open>
  The characters that \<^verbatim>\<open>str.strip\<close>, \<^verbatim>\<open>str.split\<close> and the pattern \<^verbatim>\<open>\s\<close> take for whitespace:
  the ASCII ones (tab to carriage return, the four separators, the space), NEL, the
  no-break space and the Unicode spaces and line separators.
\<close>

definition isspace :: "nat \<Rightarrow> bool" where
  "isspace c =
     ((9 \<le> c \<and> c \<le> 13) \<or> (28 \<le> c \<and> c \<le> 32) \<or> c = 133 \<or> c = 160 \<or> c = 5760
      \<or> (8192 \<le> c \<and> c \<le> 8202) \<or> c = 8232 \<or> c = 8233 \<or> c = 8239 \<or> c = 8287
      \<or> c = 12288)"

text \<open>\<^verbatim>\<open>s.strip()\<close>.\<close>

definition strip :: "pystr \<Rightarrow> pystr" where
  "strip s = rev (dropWhile isspace (rev (dropWhile isspace s)))"

text \<open>\<^verbatim>\<open>s.split(sep)\<close> for a separator of one character; the result is never empty.\<close>

fun split_on :: "nat \<Rightarrow> pystr \<Rightarrow> pystr list" where
  "split_on sep [] = [[]]"
| "split_on sep (c # cs) =
     (if c = sep then [] # split_on sep cs
      else (case split_on sep cs of
              l # ls \<Rightarrow> (c # l) # ls
            | [] \<Rightarrow> [[c]]))"

text \<open>
  \<^verbatim>\<open>re.sub\<close> of the pattern \<open>c{k,}\<close> by \<open>r\<close> copies of \<open>c\<close>: the pattern is greedy, so
  each maximal run of at least \<open>k\<close> copies is replaced as a whole, and shorter runs stay.
  \<open>n\<close> counts the copies of \<open>c\<close> read since the last other character.
\<close>

definition emit_run :: "nat \<Rightarrow> nat \<Rightarrow> nat \<Rightarrow> nat \<Rightarrow> pystr" where
  "emit_run c k r n = (if k \<le> n then replicate r c else replicate n c)"

fun re_sub_runs :: "nat \<Rightarrow> nat \<Rightarrow> nat \<Rightarrow> nat \<Rightarrow> pystr \<Rightarrow> pystr" where
  "re_sub_runs c k r n [] = emit_run c k r n"
| "re_sub_runs c k r n (x # xs) =
     (if x = c then re_sub_runs c k r (Suc n) xs
      else emit_run c k r n @ x # re_sub_runs c k r 0 xs)"

text \<open>\<^verbatim>\<open>re.sub(r'\n{3,}', '\n\n', text)\<close> and \<^verbatim>\<open>re.sub(r' {2,}', ' ', text)\<close>.\<close>

definition collapse_newlines :: "pystr \<Rightarrow> pystr" where
  "collapse_newlines text = re_sub_runs 10 3 2 0 text"

definition collapse_spaces :: "pystr \<Rightarrow> pystr" where
  "collapse_spaces text = re_sub_runs 32 2 1 0 text"

definition clean_text :: "pystr \<Rightarrow> pystr" where
  "clean_text text =
     (if text = [] then []
      else
        let text1 = collapse_newlines text;
            text2 = collapse_spaces text1;
            lines = map strip (split_on 10 text2);
            text3 = join [10] lines
        in strip text3)"

section \<open>utils/helpers.py: extract_bullet_points\<close>

text \<open>The bullet characters of the first pattern.\<close>

definition bullet_glyphs :: "nat list" where
  "bullet_glyphs = [8226, 45, 42, 8594, 9658, 9679, 9675, 9702, 9642, 9656]"

text \<open>
  The tail \<^verbatim>\<open>\s*(.+)$\<close> of the three patterns, matched against the rest of a line (a
  line holds no newline, so \<^verbatim>\<open>.\<close> takes every character and \<^verbatim>\<open>$\<close> is the end): the
  group is the rest without its leading whitespace; when the rest is whitespace only,
  \<^verbatim>\<open>\s*\<close> gives back its last character to the group; an empty rest does not match.
\<close>

definition rest_group :: "pystr \<Rightarrow> pystr option" where
  "rest_group rest =
     (if rest = [] then None
      else if dropWhile isspace rest \<noteq> [] then Some (dropWhile isspace rest)
      else Some [last rest])"

text \<open>
  \<^verbatim>\<open>re.match\<close> of each pattern, giving group 1. \<open>isdigit\<close> is the pattern \<^verbatim>\<open>\d\<close>, the
  decimal digits of Unicode, a table of the interpreter that is taken as a parameter
  (the full stop is not a digit, so the greedy \<^verbatim>\<open>\d+\<close> never gives digits back).
\<close>

definition match_glyph :: "pystr \<Rightarrow> pystr option" where
  "match_glyph line =
     (case line of
        c # rest \<Rightarrow> if c \<in> set bullet_glyphs then rest_group rest else None
      | [] \<Rightarrow> None)"

definition match_numbered :: "(nat \<Rightarrow> bool) \<Rightarrow> pystr \<Rightarrow> pystr option" where
  "match_numbered isdigit line =
     (if takeWhile isdigit line = [] then None
      else (case dropWhile isdigit line of
              c # rest \<Rightarrow> if c = 46 then rest_group rest else None
            | [] \<Rightarrow> None))"

definition match_lettered :: "pystr \<Rightarrow> pystr option" where
  "match_lettered line =
     (case line of
        c # d # rest \<Rightarrow> if 97 \<le> c \<and> c \<le> 122 \<and> d = 41 then rest_group rest else None
      | _ \<Rightarrow> None)"

text \<open>The loop over the patterns stops at the first one that matches.\<close>

definition first_match :: "(nat \<Rightarrow> bool) \<Rightarrow> pystr \<Rightarrow> pystr option" where
  "first_match isdigit line =
     (case match_glyph line of
        Some g \<Rightarrow> Some g
      | None \<Rightarrow>
          (case match_numbered isdigit line of
             Some g \<Rightarrow> Some g
           | None \<Rightarrow> match_lettered line))"

text \<open>
  The first loop over the lines. An empty line is skipped by \<^verbatim>\<open>continue\<close>, before the
  test of the limit; otherwise the limit is tested after the line has been handled.
\<close>

fun pass1 :: "(nat \<Rightarrow> bool) \<Rightarrow> int \<Rightarrow> pystr list \<Rightarrow> pystr list \<Rightarrow> pystr list" where
  "pass1 isdigit max_bullets [] bullets = bullets"
| "pass1 isdigit max_bullets (raw # rest) bullets =
     (let line = strip raw in
      if line = [] then pass1 isdigit max_bullets rest bullets
      else
        let bullets' =
              (case first_match isdigit line of
                 Some g \<Rightarrow>
                   (let bullet_text = strip g
                    in if length bullet_text > 20 then bullets @ [bullet_text] else bullets)
               | None \<Rightarrow> bullets)
        in if int (length bullets') \<ge> max_bullets then bullets'
           else pass1 isdigit max_bullets rest bullets')"

definition action_verbs :: "pystr list" where
  "action_verbs = map u
     [''led'', ''managed'', ''developed'', ''created'', ''implemented'',
      ''increased'', ''decreased'', ''improved'', ''designed'', ''built'',
      ''achieved'', ''delivered'', ''launched'', ''established'', ''generated'',
      ''reduced'', ''streamlined'', ''coordinated'', ''executed'', ''analyzed'',
      ''spearheaded'', ''orchestrated'', ''optimized'', ''collaborated'',
      ''drove'', ''facilitated'', ''mentored'', ''supervised'', ''oversaw'',
      ''authored'', ''crafted'', ''engineered'', ''architected'', ''pioneered'',
      ''transformed'', ''revamped'', ''modernized'', ''automated'', ''integrated'',
      ''negotiated'', ''secured'', ''acquired'', ''retained'', ''resolved'',
      ''responsible'', ''worked'', ''assisted'', ''helped'', ''supported'']"

text \<open>\<^verbatim>\<open>line.split()\<close> is empty when the line has no word; otherwise its first element is the first word.\<close>

definition first_word_of :: "pystr \<Rightarrow> pystr option" where
  "first_word_of line =
     (if dropWhile isspace line = [] then None
      else Some (takeWhile (\<lambda>c. \<not> isspace c) (dropWhile isspace line)))"

text \<open>\<^verbatim>\<open>w.rstrip('ed')\<close> removes every trailing \<^verbatim>\<open>e\<close> and \<^verbatim>\<open>d\<close>.\<close>

definition rstrip_ed :: "pystr \<Rightarrow> pystr" where
  "rstrip_ed w = rev (dropWhile (\<lambda>c. c = 101 \<or> c = 100) (rev w))"

text \<open>
  The second loop. \<open>lower\<close> is \<^verbatim>\<open>str.lower\<close>, the lowercase mapping of Unicode, taken
  as a parameter. The limit is tested after every line.
\<close>

fun pass2 :: "(pystr \<Rightarrow> pystr) \<Rightarrow> int \<Rightarrow> pystr list \<Rightarrow> pystr list \<Rightarrow> pystr list" where
  "pass2 lower max_bullets [] bullets = bullets"
| "pass2 lower max_bullets (raw # rest) bullets =
     (let line = strip raw;
          first_word = (case first_word_of line of Some w \<Rightarrow> rstrip_ed (lower w) | None \<Rightarrow> []);
          first_word_full = (case first_word_of line of Some w \<Rightarrow> lower w | None \<Rightarrow> []);
          bullets' =
            (if (first_word_full \<in> set action_verbs \<or> first_word \<in> set action_verbs)
                \<and> length line > 25
             then bullets @ [line] else bullets)
      in if int (length bullets') \<ge> max_bullets then bullets'
         else pass2 lower max_bullets rest bullets')"

definition extract_bullet_points ::
  "(nat \<Rightarrow> bool) \<Rightarrow> (pystr \<Rightarrow> pystr) \<Rightarrow> pystr \<Rightarrow> int \<Rightarrow> pystr list" where
  "extract_bullet_points isdigit lower text max_bullets =
     (let bullets = pass1 isdigit max_bullets (split_on 10 text) []
      in if bullets = [] then pass2 lower max_bullets (split_on 10 text) bullets
         else bullets)"

text \<open>The digits and the lowercase mapping of ASCII, for the examples.\<close>

definition ascii_isdigit :: "nat \<Rightarrow> bool" where
  "ascii_isdigit c = (48 \<le> c \<and> c \<le> 57)"

definition ascii_lower :: "pystr \<Rightarrow> pystr" where
  "ascii_lower s = map (\<lambda>c. if 65 \<le> c \<and> c \<le> 90 then c + 32 else c) s"

section \<open>Example inputs and the specification's vocabulary\<close>

text \<open>Gateways for the examples: one that always replies with a parsed value, one that always raises.\<close>

definition replying :: "json \<Rightarrow> gateway" where
  "replying v = (\<lambda>req. Inr v)"

definition failing :: "py_exception \<Rightarrow> gateway" where
  "failing e = (\<lambda>req. Inl e)"

definition sample_resume :: ResumeData where
  "sample_resume =
     \<lparr>raw_text = u ''Jane Doe'', file_name = u ''cv.txt'', file_type = u ''.txt'',
      sections = [], word_count = 2\<rparr>"

text \<open>An \<^verbatim>\<open>int\<close> parser that rejects every string, for the examples without string scores.\<close>

definition no_int_of_str :: "pystr \<Rightarrow> int option" where
  "no_int_of_str s = None"

text \<open>
  The reply of scenario B. The float literal \<^verbatim>\<open>7.6\<close> denotes the double
  \<open>4278419646001971 / 2 ^ 49\<close>, a little below 7.6.
\<close>

definition scenario_B :: json where
  "scenario_B =
     JObj [(u ''clarity'', JInt 12), (u ''impact'', JInt (- 3)),
           (u ''relevance'', JFloat (4278419646001971 / 562949953421312)),
           (u ''completeness'', JInt 5), (u ''ats_score'', JInt 5)]"

text \<open>A reply with one criterion only.\<close>

definition only_clarity :: json where
  "only_clarity = JObj [(u ''clarity'', JInt 9)]"

text \<open>The value of a JSON number (an integer or a finite float).\<close>

definition number_value :: "json \<Rightarrow> rat option" where
  "number_value v = (case v of JInt n \<Rightarrow> Some (of_int n) | JFloat q \<Rightarrow> Some q | _ \<Rightarrow> None)"

text \<open>
  What the scorer stores for criterion \<open>k\<close> of the reply \<open>d\<close>, when the criterion is
  absent or a number: 5, or the number truncated towards zero and clamped.
\<close>

definition stored :: "(pystr \<times> json) list \<Rightarrow> pystr \<Rightarrow> int option" where
  "stored d k =
     (case map_of d k of
        None \<Rightarrow> Some 5
      | Some v \<Rightarrow>
          (case number_value v of
             Some q \<Rightarrow> Some (max 1 (min 10 (trunc q)))
           | None \<Rightarrow> None))"

text \<open>The specification's \<^verbatim>\<open>round(value)\<close>: Python rounds to the nearest integer, ties to even.\<close>

definition py_round :: "rat \<Rightarrow> int" where
  "py_round q = rne q"

text \<open>
  The taxonomy of the section detection prompt, in its declared order, and the listing of
  given section names in that order.
\<close>

definition taxonomy :: "pystr list" where
  "taxonomy =
     [u ''contact'', u ''summary'', u ''experience'', u ''education'', u ''skills'',
      u ''projects'', u ''other'']"

definition taxonomy_order :: "pystr list \<Rightarrow> pystr list" where
  "taxonomy_order names = filter (\<lambda>k. k \<in> set names) taxonomy"

text \<open>
  A reply object whose values are strings or null, and one section per key with a
  string that is neither empty nor \<^verbatim>\<open>"null"\<close>, in the order of the reply.
\<close>

definition response_object :: "(pystr \<times> pystr option) list \<Rightarrow> json" where
  "response_object kcs =
     JObj (map (\<lambda>(k, c). (k, case c of None \<Rightarrow> JNull | Some s \<Rightarrow> JStr s)) kcs)"

definition sections_of :: "(pystr \<times> pystr option) list \<Rightarrow> ResumeSection list" where
  "sections_of kcs =
     concat (map (\<lambda>(k, c).
        case c of
          None \<Rightarrow> []
        | Some s \<Rightarrow>
            if s \<noteq> [] \<and> s \<noteq> u ''null''
            then [\<lparr>name = k, content = s, start_index = 0, end_index = 0\<rparr>] else []) kcs)"






text \<open>The first line of scenario A, a bullet of 46 characters.\<close>

definition scenario_A_first_line :: pystr where
  "scenario_A_first_line = u ''- Led a team of 5 engineers to deliver project X''"

text \<open>
  The vocabulary of the proof that the normalizer settles after two applications: a blank
  is a whitespace character other than the newline; a text has no double space, is
  tight (no blank next to a newline) and is trimmed (no whitespace at either end).
\<close>

definition blank :: "nat \<Rightarrow> bool" where
  "blank c = (isspace c \<and> c \<noteq> 10)"

definition no_double_space :: "pystr \<Rightarrow> bool" where
  "no_double_space s = successively (\<lambda>a b. \<not> (a = 32 \<and> b = 32)) s"

definition tight :: "pystr \<Rightarrow> bool" where
  "tight s = successively (\<lambda>a b. \<not> (a = 10 \<and> blank b) \<and> \<not> (blank a \<and> b = 10)) s"

definition trimmed :: "pystr \<Rightarrow> bool" where
  "trimmed s = (s = [] \<or> (\<not> isspace (hd s) \<and> \<not> isspace (last s)))"

text \<open>Whether a text holds three newlines in a row.\<close>

fun triple_newline :: "pystr \<Rightarrow> bool" where
  "triple_newline (a # b # c # s) = ((a = 10 \<and> b = 10 \<and> c = 10) \<or> triple_newline (b # c # s))"
| "triple_newline s = False"

text \<open>A text with two lines of one space between two letters, and one with a run of newlines.\<close>

definition blank_lines_text :: pystr where
  "blank_lines_text = u ''a'' @ [10, 32, 10, 32, 10] @ u ''b''"

definition paragraphs_text :: pystr where
  "paragraphs_text = u ''a  b '' @ [10, 10, 10, 10] @ u '' c''"









section \<open>Properties\<close>

subsection \<open>The priority order of the criteria\<close>

text \<open>
  The helper sorts the items of its dict literal with a stable sort and returns the names.
\<close>

lemma priority_of_score_dict:
  "\<exists>ps. get_improvement_priority s = map fst ps
        \<and> mset ps = mset (score_dict s)
        \<and> sorted (map snd ps)
        \<and> (\<forall>v. filter (\<lambda>p. snd p = v) ps = filter (\<lambda>p. snd p = v) (score_dict s))
        \<and> mset (get_improvement_priority s)
            = mset [u ''clarity'', u ''impact'', u ''relevance'', u ''completeness'', u ''ats_score'']"
proof -
  let ?ps = "sort_key snd (score_dict s)"
  have 1: "get_improvement_priority s = map fst ?ps"
    by (simp add: get_improvement_priority_def)
  have 2: "mset ?ps = mset (score_dict s)" by simp
  have 3: "sorted (map snd ?ps)" by (rule sorted_sort_key)
  have 4: "\<forall>v. filter (\<lambda>p. snd p = v) ?ps = filter (\<lambda>p. snd p = v) (score_dict s)"
    by (simp add: sort_key_stable)
  have "mset (map fst ?ps) = mset (map fst (score_dict s))"
    using 2 by (metis mset_map)
  then have 5: "mset (get_improvement_priority s)
            = mset [u ''clarity'', u ''impact'', u ''relevance'', u ''completeness'', u ''ats_score'']"
    unfolding 1 by (simp add: score_dict_def)
  from 1 2 3 4 5 show ?thesis by blast
qed

text \<open>
  Claim C9. For every \<open>ScoreResult\<close> the priority helper returns the names of a list of
  (name, score) pairs that is a rearrangement of the five pairs (clarity, its score),
  (impact, its score), (relevance, its score), (completeness, its score), (ats_score, its
  score), ascending in the score, and in which the pairs of equal score keep the order
  of that declaration; the result is a permutation of exactly the five names, weakest
  criteria first.
\<close>

theorem get_improvement_priority_sorted_stable:
  "\<exists>ps. get_improvement_priority s = map fst ps
        \<and> mset ps = mset [(u ''clarity'', clarity s), (u ''impact'', impact s),
                           (u ''relevance'', relevance s), (u ''completeness'', completeness s),
                           (u ''ats_score'', ats_score s)]
        \<and> sorted (map snd ps)
        \<and> (\<forall>v. filter (\<lambda>p. snd p = v) ps
               = filter (\<lambda>p. snd p = v)
                   [(u ''clarity'', clarity s), (u ''impact'', impact s),
                    (u ''relevance'', relevance s), (u ''completeness'', completeness s),
                    (u ''ats_score'', ats_score s)])
        \<and> mset (get_improvement_priority s)
            = mset [u ''clarity'', u ''impact'', u ''relevance'', u ''completeness'', u ''ats_score'']"
  using priority_of_score_dict [of s] unfolding score_dict_def .

subsection \<open>Section detection: the failure path\<close>

text \<open>
  The loop over the items raises as soon as it meets a value that passes the test and
  is not a string.
\<close>

lemma build_sections_invalid:
  "\<exists>kv \<in> set items. truthy (snd kv) \<and> (\<forall>s. snd kv \<noteq> JStr s) \<Longrightarrow>
   build_sections items secs = Inl ValidationError"
proof (induction items arbitrary: secs)
  case Nil
  then show ?case by simp
next
  case (Cons kv items)
  obtain k v where kv: "kv = (k, v)" by (cases kv)
  show ?case
  proof (cases "truthy v \<and> (\<forall>s. v \<noteq> JStr s)")
    case True
    then show ?thesis unfolding kv by (cases v) simp_all
  next
    case False
    with Cons.prems kv
    have ex: "\<exists>kv \<in> set items. truthy (snd kv) \<and> (\<forall>s. snd kv \<noteq> JStr s)" by auto
    show ?thesis
    proof (cases "truthy v \<and> v \<noteq> JStr (u ''null'')")
      case True
      with False obtain s where "v = JStr s" by auto
      with True kv Cons.IH [OF ex] show ?thesis by simp
    next
      case False
      then have "build_sections ((k, v) # items) secs = build_sections items secs"
        by (simp only: build_sections.simps if_False)
      with kv Cons.IH [OF ex] show ?thesis by simp
    qed
  qed
qed

text \<open>
  Claim C7. On every path into the \<^verbatim>\<open>except\<close> branch (the gateway call or the parsing
  of its reply raises, the parsed reply is not an object, or the object holds a value
  that is neither skipped nor a string) \<open>detect_sections\<close> stores exactly one section,
  named \<open>full_resume\<close>, whose content is the whole text of the resume; the list is not
  empty.
\<close>

theorem detect_sections_failure_fallback:
  "gw (detect_request resume) = Inl e
   \<or> (gw (detect_request resume) = Inr v \<and> (\<forall>items. v \<noteq> JObj items))
   \<or> (gw (detect_request resume) = Inr (JObj items)
       \<and> (\<exists>kv \<in> set items. truthy (snd kv) \<and> (\<forall>s. snd kv \<noteq> JStr s)))
   \<Longrightarrow>
   sections (detect_sections gw resume)
     = [\<lparr>name = u ''full_resume'', content = raw_text resume, start_index = 0, end_index = 0\<rparr>]"
proof (elim disjE conjE)
  assume "gw (detect_request resume) = Inl e"
  then show ?thesis by (simp add: detect_sections_def full_resume_section_def)
next
  assume "gw (detect_request resume) = Inr v" "\<forall>items. v \<noteq> JObj items"
  then show ?thesis by (cases v) (simp_all add: detect_sections_def full_resume_section_def)
next
  assume g: "gw (detect_request resume) = Inr (JObj items)"
    and "\<exists>kv \<in> set items. truthy (snd kv) \<and> (\<forall>s. snd kv \<noteq> JStr s)"
  then have "build_sections items [] = Inl ValidationError" by (intro build_sections_invalid)
  with g show ?thesis by (simp add: detect_sections_def full_resume_section_def)
qed

theorem detect_sections_failure_fallback_witness:
  "sections (detect_sections (failing JSONDecodeError) sample_resume)
       = [\<lparr>name = u ''full_resume'', content = raw_text sample_resume,
           start_index = 0, end_index = 0\<rparr>]
   \<and> sections (detect_sections (replying (JArr [JStr (u ''contact'')])) sample_resume)
       = [\<lparr>name = u ''full_resume'', content = raw_text sample_resume,
           start_index = 0, end_index = 0\<rparr>]
   \<and> sections (detect_sections
         (replying (JObj [(u ''contact'', JStr (u ''Jane Doe'')), (u ''skills'', JArr [JStr (u ''Python'')])]))
         sample_resume)
       = [\<lparr>name = u ''full_resume'', content = raw_text sample_resume,
           start_index = 0, end_index = 0\<rparr>]
   \<and> raw_text sample_resume = u ''Jane Doe''"
  using detect_sections_failure_fallback [of "failing JSONDecodeError" sample_resume JSONDecodeError
          JNull "[]"]
        detect_sections_failure_fallback [of "replying (JArr [JStr (u ''contact'')])" sample_resume
          JSONDecodeError "JArr [JStr (u ''contact'')]" "[]"]
        detect_sections_failure_fallback [of
          "replying (JObj [(u ''contact'', JStr (u ''Jane Doe'')), (u ''skills'', JArr [JStr (u ''Python'')])])"
          sample_resume JSONDecodeError JNull
          "[(u ''contact'', JStr (u ''Jane Doe'')), (u ''skills'', JArr [JStr (u ''Python'')])]"]
  by (simp add: failing_def replying_def sample_resume_def)

subsection \<open>Rewriting: the empty input and the failure path\<close>

text \<open>
  Claim C8. \<open>rewrite_bullets\<close> of the empty list returns the empty list and sends no
  request to the gateway. For a list that is not empty, when the gateway call or the
  parsing of its reply raises, or when the parsed reply cannot be turned into
  suggestions, it returns the empty list (after its one request) and raises nothing.
\<close>

theorem rewrite_bullets_empty_or_failed:
  "rewrite_bullets gw [] = ([], [])
   \<and> (bullet_points \<noteq> []
        \<and> (gw (rewrite_request bullet_points) = Inl e
            \<or> (\<exists>rewrite_data. gw (rewrite_request bullet_points) = Inr rewrite_data
                  \<and> parse_rewrites rewrite_data = Inl e))
        \<longrightarrow> rewrite_bullets gw bullet_points = ([], [rewrite_request bullet_points]))"
  by (auto simp add: rewrite_bullets_def Let_def)

theorem rewrite_bullets_empty_or_failed_witness:
  "rewrite_bullets (failing GatewayError) [] = ([], [])
   \<and> rewrite_bullets (failing GatewayError) [u ''Did things'']
       = ([], [rewrite_request [u ''Did things'']])
   \<and> parse_rewrites (JArr []) = Inl AttributeError
   \<and> rewrite_bullets (replying (JArr [])) [u ''Did things'']
       = ([], [rewrite_request [u ''Did things'']])"
  using rewrite_bullets_empty_or_failed
          [of "failing GatewayError" "[u ''Did things'']" GatewayError]
        rewrite_bullets_empty_or_failed
          [of "replying (JArr [])" "[u ''Did things'']" AttributeError]
  by (simp add: parse_rewrites_def failing_def replying_def)

subsection \<open>Text files always decode\<close>

text \<open>
  Claim C10. For every byte sequence \<open>_parse_txt\<close> returns a string: the text comes from
  the utf-8, the utf-16 or the latin-1 attempt, because the latin-1 attempt (third in the
  order utf-8, utf-16, latin-1, cp1252) succeeds on every input; the cp1252 attempt and
  the replacing fallback are never reached, so the result does not depend on them.
\<close>

theorem parse_txt_total:
  "snd (parse_txt_from cd file_bytes) \<in> {Decoded UTF8, Decoded UTF16, Decoded LATIN1}
   \<and> parse_txt cd file_bytes
       = (case utf8_strict cd file_bytes of
            Some text \<Rightarrow> text
          | None \<Rightarrow>
              (case utf16_strict cd file_bytes of
                 Some text \<Rightarrow> text
               | None \<Rightarrow> latin1_decode file_bytes))"
  by (simp add: parse_txt_def parse_txt_from_def encodings_def split: option.splits)

subsection \<open>Section detection: the success path\<close>

lemma build_sections_strings:
  "build_sections (map (\<lambda>(k, c). (k, case c of None \<Rightarrow> JNull | Some s \<Rightarrow> JStr s)) kcs) secs
     = Inr (secs @ sections_of kcs)"
proof (induction kcs arbitrary: secs)
  case Nil
  show ?case by (simp add: sections_of_def)
next
  case (Cons kc kcs)
  obtain k c where kc: "kc = (k, c)" by (cases kc)
  show ?case
  proof (cases c)
    case None
    with kc Cons show ?thesis by (simp add: sections_of_def)
  next
    case (Some s)
    with kc Cons show ?thesis by (simp add: sections_of_def)
  qed
qed

text \<open>
  Claim C3, as stated, fails: the sections follow the order of the keys in the reply,
  not the order of the taxonomy. For the reply \<^verbatim>\<open>{"skills": ..., "contact": ...}\<close> the
  sections are skills, contact, while the taxonomy lists contact before skills.
\<close>

theorem detect_sections_taxonomy_order_counterexample:
  "map name (sections (detect_sections
      (replying (JObj [(u ''skills'', JStr (u ''Python'')), (u ''contact'', JStr (u ''Jane Doe''))]))
      sample_resume))
     = [u ''skills'', u ''contact'']
   \<and> taxonomy_order [u ''skills'', u ''contact''] = [u ''contact'', u ''skills'']"
  by (simp add: detect_sections_def replying_def taxonomy_def taxonomy_order_def u_def)

text \<open>
  Claim C3, amended. For every parsed reply that is an object whose values are strings
  or null, \<open>detect_sections\<close> stores exactly one section per key whose value is a string
  that is neither empty nor \<^verbatim>\<open>"null"\<close>, with that string as content, in the order of the
  keys in the reply.
\<close>

theorem detect_sections_response_order:
  "gw (detect_request resume) = Inr (response_object kcs) \<Longrightarrow>
   sections (detect_sections gw resume) = sections_of kcs"
  by (simp add: detect_sections_def response_object_def build_sections_strings)

theorem detect_sections_response_order_witness:
  "replying (response_object [(u ''skills'', Some (u ''Python'')), (u ''summary'', None),
       (u ''other'', Some (u ''null'')), (u ''contact'', Some (u ''Jane Doe''))])
     (detect_request sample_resume)
    = Inr (response_object [(u ''skills'', Some (u ''Python'')), (u ''summary'', None),
       (u ''other'', Some (u ''null'')), (u ''contact'', Some (u ''Jane Doe''))])
   \<and> sections (detect_sections
        (replying (response_object [(u ''skills'', Some (u ''Python'')), (u ''summary'', None),
           (u ''other'', Some (u ''null'')), (u ''contact'', Some (u ''Jane Doe''))]))
        sample_resume)
      = [\<lparr>name = u ''skills'', content = u ''Python'', start_index = 0, end_index = 0\<rparr>,
         \<lparr>name = u ''contact'', content = u ''Jane Doe'', start_index = 0, end_index = 0\<rparr>]"
  using detect_sections_response_order [of
      "replying (response_object [(u ''skills'', Some (u ''Python'')), (u ''summary'', None),
           (u ''other'', Some (u ''null'')), (u ''contact'', Some (u ''Jane Doe''))])"
      sample_resume
      "[(u ''skills'', Some (u ''Python'')), (u ''summary'', None),
           (u ''other'', Some (u ''null'')), (u ''contact'', Some (u ''Jane Doe''))]"]
  by (simp add: replying_def sections_of_def u_def)

subsection \<open>Scoring: what is stored\<close>

lemma trunc_of_int: "trunc (of_int n) = n"
  by (simp add: trunc_def)

lemma trunc_numeral: "trunc (numeral w) = numeral w" "trunc (- numeral w) = - numeral w"
  by (simp_all add: trunc_def)

lemma trunc_scenario_B: "trunc (4278419646001971 / 562949953421312) = 7"
  unfolding trunc_def by (simp add: floor_eq_iff)

lemma py_round_scenario_B: "py_round (4278419646001971 / 562949953421312) = 8"
proof -
  have "\<lfloor>4278419646001971 / 562949953421312 :: rat\<rfloor> = 7"
    by (simp add: floor_eq_iff)
  then show ?thesis by (simp add: py_round_def rne_def Let_def)
qed

lemma clamp_score_stored:
  "stored d k = Some n \<Longrightarrow> clamp_score ios (dict_get d k (JInt 5)) = Inr n"
  by (auto simp add: stored_def dict_get_def clamp_score_def number_value_def trunc_of_int
      split: option.splits json.splits)

text \<open>
  Claim C1, as stated, fails: the scorer converts with \<^verbatim>\<open>int\<close>, which truncates. For the
  reply of scenario B the stored relevance is 7, while \<open>max 1 (min 10 (round 7.6))\<close> is 8.
\<close>

theorem score_rounds_counterexample:
  "relevance (fst (score no_int_of_str (replying scenario_B) (JObj []) sample_resume)) = 7
   \<and> max 1 (min 10 (py_round (4278419646001971 / 562949953421312))) = 8
   \<and> fst (score no_int_of_str (replying scenario_B) (JObj []) sample_resume)
       \<noteq> \<lparr>clarity = 10, impact = 1, relevance = 8, completeness = 5, ats_score = 5\<rparr>"
  by (simp add: score_def replying_def scenario_B_def dict_get_def u_def clamp_score_def
      trunc_scenario_B trunc_numeral py_round_scenario_B)

text \<open>
  Claim C1, amended. For every reply object in which each of the five criteria is
  absent or a number \<open>v\<close> (an integer or a finite float), \<open>score\<close> stores
  \<open>max 1 (min 10 (trunc v))\<close> for a criterion that is present, \<open>trunc\<close> truncating
  towards zero, and 5 for one that is absent; for the reply of scenario B the stored
  result is clarity 10, impact 1, relevance 7, completeness 5, ats_score 5.
\<close>

theorem score_clamps_truncated:
  assumes "gw (score_request resume) = Inr (JObj d)"
    and "stored d (u ''clarity'') = Some c"
    and "stored d (u ''impact'') = Some i"
    and "stored d (u ''relevance'') = Some r"
    and "stored d (u ''completeness'') = Some k"
    and "stored d (u ''ats_score'') = Some a"
  shows "fst (score int_of_str gw score_explanations resume)
     = \<lparr>clarity = c, impact = i, relevance = r, completeness = k, ats_score = a\<rparr>"
  using assms by (simp add: score_def clamp_score_stored)

theorem score_clamps_truncated_witness:
  "fst (score no_int_of_str (replying scenario_B) (JObj []) sample_resume)
     = \<lparr>clarity = 10, impact = 1, relevance = 7, completeness = 5, ats_score = 5\<rparr>"
  using score_clamps_truncated [of "replying scenario_B" sample_resume
     "[(u ''clarity'', JInt 12), (u ''impact'', JInt (- 3)),
      (u ''relevance'', JFloat (4278419646001971 / 562949953421312)),
      (u ''completeness'', JInt 5), (u ''ats_score'', JInt 5)]" 10 1 7 5 5 no_int_of_str "JObj []"]
  by (simp add: replying_def scenario_B_def stored_def number_value_def u_def trunc_numeral
      trunc_scenario_B)

subsection \<open>Scoring: the failure path\<close>

lemma overall_neutral: "overall neutral_scores = 5"
  by code_simp

lemma grade_neutral: "grade neutral_scores = u ''D''"
  by (simp add: grade_def overall_neutral)

text \<open>
  Claim C5, as stated, fails for missing fields: a reply with the criterion clarity
  only is not answered with the neutral fallback; clarity keeps its value 9 and the four
  missing criteria are 5.
\<close>

theorem score_missing_fields_counterexample:
  "fst (score no_int_of_str (replying only_clarity) (JObj []) sample_resume)
     = \<lparr>clarity = 9, impact = 5, relevance = 5, completeness = 5, ats_score = 5\<rparr>
   \<and> fst (score no_int_of_str (replying only_clarity) (JObj []) sample_resume) \<noteq> neutral_scores"
  by (simp add: score_def replying_def only_clarity_def dict_get_def u_def clamp_score_def
      neutral_scores_def)

text \<open>A criterion that is missing is converted from the default 5, one that is present from its value.\<close>

lemma clamp_score_dict_get:
  "clamp_score int_of_str (dict_get d key (JInt 5))
     = (case map_of d key of None \<Rightarrow> Inr 5 | Some x \<Rightarrow> clamp_score int_of_str x)"
  by (simp add: dict_get_def clamp_score_def split: option.splits)

text \<open>
  Claim C5, amended. When the gateway call or the parsing of its reply raises, when the
  reply is not an object, or when a criterion of the reply cannot be converted by
  \<^verbatim>\<open>int\<close>, \<open>score\<close> returns the neutral fallback with every criterion 5, whose overall is
  5.0 and whose grade is D, and raises nothing. A missing field is not a failure: when
  every criterion that is present converts, the result holds 5 for each missing
  criterion and the clamped value of each present one.
\<close>

theorem score_failure_fallback:
  "(gw (score_request resume) = Inl e
      \<longrightarrow> fst (score int_of_str gw score_explanations resume) = neutral_scores)
   \<and> (gw (score_request resume) = Inr v \<and> (\<forall>d. v \<noteq> JObj d)
      \<longrightarrow> fst (score int_of_str gw score_explanations resume) = neutral_scores)
   \<and> (gw (score_request resume) = Inr (JObj d)
       \<and> (clamp_score int_of_str (dict_get d (u ''clarity'') (JInt 5)) = Inl e
          \<or> clamp_score int_of_str (dict_get d (u ''impact'') (JInt 5)) = Inl e
          \<or> clamp_score int_of_str (dict_get d (u ''relevance'') (JInt 5)) = Inl e
          \<or> clamp_score int_of_str (dict_get d (u ''completeness'') (JInt 5)) = Inl e
          \<or> clamp_score int_of_str (dict_get d (u ''ats_score'') (JInt 5)) = Inl e)
      \<longrightarrow> fst (score int_of_str gw score_explanations resume) = neutral_scores)
   \<and> neutral_scores = \<lparr>clarity = 5, impact = 5, relevance = 5, completeness = 5, ats_score = 5\<rparr>
   \<and> overall neutral_scores = 5
   \<and> grade neutral_scores = u ''D''
   \<and> (gw (score_request resume) = Inr (JObj d)
       \<and> clamp_score int_of_str (dict_get d (u ''clarity'') (JInt 5)) = Inr c
       \<and> clamp_score int_of_str (dict_get d (u ''impact'') (JInt 5)) = Inr i
       \<and> clamp_score int_of_str (dict_get d (u ''relevance'') (JInt 5)) = Inr r
       \<and> clamp_score int_of_str (dict_get d (u ''completeness'') (JInt 5)) = Inr k
       \<and> clamp_score int_of_str (dict_get d (u ''ats_score'') (JInt 5)) = Inr a
      \<longrightarrow> fst (score int_of_str gw score_explanations resume)
            = \<lparr>clarity = c, impact = i, relevance = r, completeness = k, ats_score = a\<rparr>)
   \<and> clamp_score int_of_str (dict_get d key (JInt 5))
       = (case map_of d key of None \<Rightarrow> Inr 5 | Some x \<Rightarrow> clamp_score int_of_str x)"
proof -
  have a: "gw (score_request resume) = Inl e
      \<longrightarrow> fst (score int_of_str gw score_explanations resume) = neutral_scores"
    by (simp add: score_def)
  have b: "gw (score_request resume) = Inr v \<and> (\<forall>d. v \<noteq> JObj d)
      \<longrightarrow> fst (score int_of_str gw score_explanations resume) = neutral_scores"
    by (cases v) (simp_all add: score_def)
  have c: "gw (score_request resume) = Inr (JObj d)
       \<and> (clamp_score int_of_str (dict_get d (u ''clarity'') (JInt 5)) = Inl e
          \<or> clamp_score int_of_str (dict_get d (u ''impact'') (JInt 5)) = Inl e
          \<or> clamp_score int_of_str (dict_get d (u ''relevance'') (JInt 5)) = Inl e
          \<or> clamp_score int_of_str (dict_get d (u ''completeness'') (JInt 5)) = Inl e
          \<or> clamp_score int_of_str (dict_get d (u ''ats_score'') (JInt 5)) = Inl e)
      \<longrightarrow> fst (score int_of_str gw score_explanations resume) = neutral_scores"
    by (auto simp add: score_def Let_def split: sum.splits)
  have s: "gw (score_request resume) = Inr (JObj d)
       \<and> clamp_score int_of_str (dict_get d (u ''clarity'') (JInt 5)) = Inr c
       \<and> clamp_score int_of_str (dict_get d (u ''impact'') (JInt 5)) = Inr i
       \<and> clamp_score int_of_str (dict_get d (u ''relevance'') (JInt 5)) = Inr r
       \<and> clamp_score int_of_str (dict_get d (u ''completeness'') (JInt 5)) = Inr k
       \<and> clamp_score int_of_str (dict_get d (u ''ats_score'') (JInt 5)) = Inr a
      \<longrightarrow> fst (score int_of_str gw score_explanations resume)
            = \<lparr>clarity = c, impact = i, relevance = r, completeness = k, ats_score = a\<rparr>"
    by (simp add: score_def Let_def)
  have n: "neutral_scores
      = \<lparr>clarity = 5, impact = 5, relevance = 5, completeness = 5, ats_score = 5\<rparr>"
    by (rule neutral_scores_def)
  from a b c n overall_neutral grade_neutral s clamp_score_dict_get [of int_of_str d key]
  show ?thesis by blast
qed

theorem score_failure_fallback_witness:
  "fst (score no_int_of_str (failing GatewayError) (JObj []) sample_resume) = neutral_scores
   \<and> fst (score no_int_of_str (replying (JArr [])) (JObj []) sample_resume) = neutral_scores
   \<and> fst (score no_int_of_str (replying (JObj [(u ''clarity'', JNull)])) (JObj []) sample_resume)
       = neutral_scores
   \<and> fst (score no_int_of_str (replying only_clarity) (JObj []) sample_resume)
       = \<lparr>clarity = 9, impact = 5, relevance = 5, completeness = 5, ats_score = 5\<rparr>"
  using score_failure_fallback [of "failing GatewayError" sample_resume GatewayError
          no_int_of_str "JObj []" "JArr []" "[]" 5 5 5 5 5 "u ''clarity''"]
        score_failure_fallback [of "replying (JArr [])" sample_resume GatewayError
          no_int_of_str "JObj []" "JArr []" "[]" 5 5 5 5 5 "u ''clarity''"]
        score_failure_fallback [of "replying (JObj [(u ''clarity'', JNull)])" sample_resume TypeError
          no_int_of_str "JObj []" "JArr []" "[(u ''clarity'', JNull)]" 5 5 5 5 5 "u ''clarity''"]
        score_failure_fallback [of "replying only_clarity" sample_resume TypeError
          no_int_of_str "JObj []" "JArr []" "[(u ''clarity'', JInt 9)]" 9 5 5 5 5 "u ''impact''"]
  by (simp add: failing_def replying_def only_clarity_def dict_get_def clamp_score_def u_def)

subsection \<open>The overall score and the grade\<close>




































subsection \<open>Bullet extraction\<close>

text \<open>
  For a limit of at least one, both loops stop as soon as the limit is reached: the
  result never has more items than the limit. The items of the first loop are longer
  than 20 characters, those of the second loop longer than 25, and the second loop runs
  only when the first one found nothing.
\<close>

lemma pass1_length:
  "int (length bullets) < max_bullets \<Longrightarrow>
   int (length (pass1 isdigit max_bullets lines bullets)) \<le> max_bullets"
proof (induction lines arbitrary: bullets)
  case Nil
  then show ?case by simp
next
  case (Cons raw rest)
  show ?case
  proof (cases "strip raw = []")
    case True
    with Cons show ?thesis by simp
  next
    case False
    define bullets' where "bullets' =
              (case first_match isdigit (strip raw) of
                 Some g \<Rightarrow>
                   (let bullet_text = strip g
                    in if length bullet_text > 20 then bullets @ [bullet_text] else bullets)
               | None \<Rightarrow> bullets)"
    have le: "int (length bullets') \<le> max_bullets"
      using Cons.prems by (auto simp add: bullets'_def Let_def split: option.splits)
    have eq: "pass1 isdigit max_bullets (raw # rest) bullets =
        (if int (length bullets') \<ge> max_bullets then bullets'
         else pass1 isdigit max_bullets rest bullets')"
      using False by (simp add: bullets'_def Let_def)
    show ?thesis
    proof (cases "int (length bullets') \<ge> max_bullets")
      case True
      with eq le show ?thesis by simp
    next
      case False
      then have "int (length bullets') < max_bullets" by simp
      from Cons.IH [OF this] eq False show ?thesis by simp
    qed
  qed
qed

lemma pass1_items:
  "\<forall>b \<in> set bullets. 20 < length b \<Longrightarrow>
   \<forall>b \<in> set (pass1 isdigit max_bullets lines bullets). 20 < length b"
proof (induction lines arbitrary: bullets)
  case Nil
  then show ?case by simp
next
  case (Cons raw rest)
  show ?case
  proof (cases "strip raw = []")
    case True
    with Cons show ?thesis by simp
  next
    case False
    define bullets' where "bullets' =
              (case first_match isdigit (strip raw) of
                 Some g \<Rightarrow>
                   (let bullet_text = strip g
                    in if length bullet_text > 20 then bullets @ [bullet_text] else bullets)
               | None \<Rightarrow> bullets)"
    have inv: "\<forall>b \<in> set bullets'. 20 < length b"
      using Cons.prems by (auto simp add: bullets'_def Let_def split: option.splits)
    have eq: "pass1 isdigit max_bullets (raw # rest) bullets =
        (if int (length bullets') \<ge> max_bullets then bullets'
         else pass1 isdigit max_bullets rest bullets')"
      using False by (simp add: bullets'_def Let_def)
    show ?thesis
      unfolding eq using inv Cons.IH [OF inv] by simp
  qed
qed

lemma pass2_step:
  "pass2 lower max_bullets (raw # rest) bullets =
     (if ((case first_word_of (strip raw) of Some w \<Rightarrow> lower w | None \<Rightarrow> []) \<in> set action_verbs
          \<or> (case first_word_of (strip raw) of Some w \<Rightarrow> rstrip_ed (lower w) | None \<Rightarrow> [])
              \<in> set action_verbs)
         \<and> length (strip raw) > 25
      then (if int (length (bullets @ [strip raw])) \<ge> max_bullets then bullets @ [strip raw]
            else pass2 lower max_bullets rest (bullets @ [strip raw]))
      else (if int (length bullets) \<ge> max_bullets then bullets
            else pass2 lower max_bullets rest bullets))"
  by (simp add: Let_def)

lemma pass2_length:
  "int (length bullets) < max_bullets \<Longrightarrow>
   int (length (pass2 lower max_bullets lines bullets)) \<le> max_bullets"
proof (induction lines arbitrary: bullets)
  case Nil
  then show ?case by simp
next
  case (Cons raw rest)
  have a: "int (length (bullets @ [strip raw])) < max_bullets \<Longrightarrow>
     int (length (pass2 lower max_bullets rest (bullets @ [strip raw]))) \<le> max_bullets"
    by (rule Cons.IH)
  have b: "int (length (pass2 lower max_bullets rest bullets)) \<le> max_bullets"
    by (rule Cons.IH [OF Cons.prems])
  show ?case
    unfolding pass2_step using a b Cons.prems by auto
qed

lemma pass2_items:
  "\<forall>b \<in> set bullets. 25 < length b \<Longrightarrow>
   \<forall>b \<in> set (pass2 lower max_bullets lines bullets). 25 < length b"
proof (induction lines arbitrary: bullets)
  case Nil
  then show ?case by simp
next
  case (Cons raw rest)
  have a: "25 < length (strip raw) \<Longrightarrow>
     \<forall>b \<in> set (pass2 lower max_bullets rest (bullets @ [strip raw])). 25 < length b"
    using Cons.prems by (intro Cons.IH) simp
  have b: "\<forall>b \<in> set (pass2 lower max_bullets rest bullets). 25 < length b"
    by (rule Cons.IH [OF Cons.prems])
  show ?case
    unfolding pass2_step using a b Cons.prems by auto
qed

lemma extract_bullet_points_positive_limit:
  assumes "1 \<le> max_bullets"
  shows "int (length (extract_bullet_points isdigit lower text max_bullets)) \<le> max_bullets"
    and "extract_bullet_points isdigit lower text max_bullets =
           (if pass1 isdigit max_bullets (split_on 10 text) [] = []
            then pass2 lower max_bullets (split_on 10 text) []
            else pass1 isdigit max_bullets (split_on 10 text) [])"
    and "\<forall>b \<in> set (pass1 isdigit max_bullets (split_on 10 text) []). 20 < length b"
    and "\<forall>b \<in> set (pass2 lower max_bullets (split_on 10 text) []). 25 < length b"
proof -
  have z: "int (length ([] :: pystr list)) < max_bullets" using assms by simp
  show "int (length (extract_bullet_points isdigit lower text max_bullets)) \<le> max_bullets"
    using pass1_length [OF z] pass2_length [OF z]
    by (simp add: extract_bullet_points_def Let_def)
  show "extract_bullet_points isdigit lower text max_bullets =
           (if pass1 isdigit max_bullets (split_on 10 text) [] = []
            then pass2 lower max_bullets (split_on 10 text) []
            else pass1 isdigit max_bullets (split_on 10 text) [])"
    by (simp add: extract_bullet_points_def Let_def)
  show "\<forall>b \<in> set (pass1 isdigit max_bullets (split_on 10 text) []). 20 < length b"
    by (rule pass1_items) simp
  show "\<forall>b \<in> set (pass2 lower max_bullets (split_on 10 text) []). 25 < length b"
    by (rule pass2_items) simp
qed

lemma dropWhile_hd_id: "xs \<noteq> [] \<Longrightarrow> \<not> P (hd xs) \<Longrightarrow> dropWhile P xs = xs"
  by (cases xs) auto

lemma strip_nonspace_ends:
  assumes "s \<noteq> []" "\<not> isspace (hd s)" "\<not> isspace (last s)"
  shows "strip s = s"
proof -
  have 1: "dropWhile isspace s = s" using assms by (simp add: dropWhile_hd_id)
  have "rev s \<noteq> []" "\<not> isspace (hd (rev s))" using assms by (simp_all add: hd_rev)
  then have 2: "dropWhile isspace (rev s) = rev s" by (rule dropWhile_hd_id)
  show ?thesis by (simp add: strip_def 1 2)
qed

text \<open>
  Claim C6 says that \<open>extract_bullet_points\<close> never returns more than \<open>max_bullets\<close>
  items, for every limit. The loops test the limit only after a line has been handled,
  so with the limit 0 the first bullet is appended before the test stops the loop: one
  item is returned, more than the maximum that the docstring of the function promises.
\<close>

theorem extract_bullet_points_zero_limit:
  "extract_bullet_points ascii_isdigit ascii_lower scenario_A_first_line 0
     = [u ''Led a team of 5 engineers to deliver project X'']
   \<and> \<not> int (length (extract_bullet_points ascii_isdigit ascii_lower scenario_A_first_line 0)) \<le> 0"
proof -
  have sp: "isspace 32" "\<not> isspace 45" "\<not> isspace 76" "\<not> isspace 88" by (simp_all add: isspace_def)
  have a: "strip scenario_A_first_line = scenario_A_first_line"
    by (rule strip_nonspace_ends) (simp_all add: scenario_A_first_line_def u_def sp)
  have b: "strip (u ''Led a team of 5 engineers to deliver project X'')
             = u ''Led a team of 5 engineers to deliver project X''"
    by (rule strip_nonspace_ends) (simp_all add: u_def sp)
  have c: "first_match ascii_isdigit scenario_A_first_line
             = Some (u ''Led a team of 5 engineers to deliver project X'')"
    by (simp add: first_match_def match_glyph_def bullet_glyphs_def rest_group_def
        scenario_A_first_line_def u_def sp)
  have d: "split_on 10 scenario_A_first_line = [scenario_A_first_line]"
    by (simp add: scenario_A_first_line_def u_def)
  have e: "scenario_A_first_line \<noteq> []" by (simp add: scenario_A_first_line_def u_def)
  have f: "length (u ''Led a team of 5 engineers to deliver project X'') = 46"
    by (simp add: u_def)
  have "pass1 ascii_isdigit 0 [scenario_A_first_line] []
          = [u ''Led a team of 5 engineers to deliver project X'']"
    by (simp add: a b c e f Let_def)
  then show ?thesis by (simp add: extract_bullet_points_def d Let_def)
qed

subsection \<open>The text normalizer\<close>

text \<open>
  The output of \<open>clean_text\<close> is trimmed, tight and without double space. On such a
  text the last three rules change nothing, so a second application only collapses the
  runs of newlines that the stripping of whitespace-only lines has left.
\<close>

lemma isspace_10: "isspace 10"
  by (simp add: isspace_def)

lemma successively_replicate: "R c c \<Longrightarrow> successively R (replicate n c)"
proof (induction n)
  case 0
  show ?case by simp
next
  case (Suc n)
  then show ?case by (cases n) (simp_all add: successively_Cons)
qed

lemma successively_replicate_append:
  "R c c \<Longrightarrow> successively R t \<Longrightarrow> t = [] \<or> R c (hd t) \<Longrightarrow>
   successively R (replicate m c @ t)"
proof (induction m)
  case 0
  then show ?case by simp
next
  case (Suc m)
  then show ?case by (cases m) (auto simp add: successively_Cons)
qed

lemma emit_run_0: "0 < k \<Longrightarrow> emit_run c k r 0 = []"
  by (simp add: emit_run_def)

lemma emit_run_replicate: "\<exists>m. emit_run c k r n = replicate m c \<and> (0 < n \<and> 0 < r \<longrightarrow> 0 < m)"
  by (auto simp add: emit_run_def)

lemma re_sub_runs_pending:
  "0 < n \<Longrightarrow> 0 < r \<Longrightarrow> re_sub_runs c k r n s \<noteq> [] \<and> hd (re_sub_runs c k r n s) = c"
proof (induction s arbitrary: n)
  case Nil
  then show ?case by (auto simp add: emit_run_def)
next
  case (Cons x xs)
  show ?case
  proof (cases "x = c")
    case True
    with Cons.IH [of "Suc n"] Cons.prems show ?thesis by simp
  next
    case False
    obtain m where "emit_run c k r n = replicate m c" "0 < m"
      using emit_run_replicate [of c k r n] Cons.prems by blast
    then show ?thesis using False by (cases m) auto
  qed
qed

lemma re_sub_runs_hd:
  "0 < r \<Longrightarrow> 0 < k \<Longrightarrow> s \<noteq> [] \<Longrightarrow>
   re_sub_runs c k r 0 s \<noteq> [] \<and> hd (re_sub_runs c k r 0 s) = hd s"
proof (cases s)
  case Nil
  assume "s \<noteq> []" with Nil show ?thesis by simp
next
  case (Cons x xs)
  assume r: "0 < r" and k: "0 < k"
  show ?thesis
  proof (cases "x = c")
    case True
    with Cons re_sub_runs_pending [of "Suc 0" r c k xs] r show ?thesis by simp
  next
    case False
    with Cons k show ?thesis by (simp add: emit_run_0)
  qed
qed

lemma re_sub_runs_last:
  "0 < k \<Longrightarrow> s \<noteq> [] \<Longrightarrow> last s \<noteq> c \<Longrightarrow>
   re_sub_runs c k r n s \<noteq> [] \<and> last (re_sub_runs c k r n s) = last s"
proof (induction s arbitrary: n)
  case Nil
  then show ?case by simp
next
  case (Cons x xs)
  show ?case
  proof (cases "xs = []")
    case True
    with Cons.prems show ?thesis by (simp add: emit_run_0)
  next
    case False
    then have l: "last xs \<noteq> c" using Cons.prems by simp
    from Cons.IH [OF Cons.prems(1) False l] False show ?thesis by (cases "x = c") auto
  qed
qed

lemma successively_re_sub_runs:
  assumes R: "R c c" and r: "0 < r" and k: "0 < k"
  shows "successively R (replicate n c @ s) \<Longrightarrow> successively R (re_sub_runs c k r n s)"
proof (induction s arbitrary: n)
  case Nil
  obtain m where "emit_run c k r n = replicate m c"
    using emit_run_replicate [of c k r n] by blast
  then show ?case using R by (simp add: successively_replicate)
next
  case (Cons x xs)
  show ?case
  proof (cases "x = c")
    case True
    have "replicate (Suc n) c @ xs = replicate n c @ c # xs"
      by (simp add: replicate_app_Cons_same)
    with Cons.prems True have "successively R (replicate (Suc n) c @ xs)" by simp
    from Cons.IH [OF this] True show ?thesis by simp
  next
    case False
    from Cons.prems have sx: "successively R (x # xs)"
      by (simp add: successively_append_iff)
    then have "successively R xs" by (auto simp add: successively_Cons)
    then have "successively R (replicate 0 c @ xs)" by simp
    from Cons.IH [OF this] have ih: "successively R (re_sub_runs c k r 0 xs)" .
    have tail: "successively R (x # re_sub_runs c k r 0 xs)"
    proof (cases "xs = []")
      case True
      then show ?thesis using k by (simp add: emit_run_0)
    next
      case False
      with sx have "R x (hd xs)" by (auto simp add: successively_Cons)
      with re_sub_runs_hd [OF r k False, of c] ih show ?thesis
        by (auto simp add: successively_Cons)
    qed
    obtain m where m: "emit_run c k r n = replicate m c" "0 < n \<and> 0 < r \<longrightarrow> 0 < m"
      using emit_run_replicate [of c k r n] by blast
    show ?thesis
    proof (cases "n = 0")
      case True
      with False tail k show ?thesis by (simp add: emit_run_0)
    next
      case n: False
      with Cons.prems have "R c x"
        by (auto simp add: successively_append_iff)
      with m tail R False show ?thesis
        by (simp add: successively_replicate_append)
    qed
  qed
qed

lemma re_sub_runs_replicate:
  "re_sub_runs c k r n (replicate m c @ t) = re_sub_runs c k r (n + m) t"
  by (induction m arbitrary: n) simp_all

lemma emit_run_small:
  assumes "r < k"
  shows "\<exists>m. emit_run c k r n = replicate m c \<and> m < k"
  using assms by (auto simp add: emit_run_def)

lemma re_sub_runs_idem:
  assumes rk: "r < k"
  shows "re_sub_runs c k r 0 (re_sub_runs c k r n s) = re_sub_runs c k r n s"
proof (induction s arbitrary: n)
  case Nil
  obtain m where m: "emit_run c k r n = replicate m c" "m < k"
    using emit_run_small [OF rk] by blast
  have "re_sub_runs c k r 0 (replicate m c @ []) = re_sub_runs c k r (0 + m) []"
    by (rule re_sub_runs_replicate)
  with m show ?case by (simp add: emit_run_def)
next
  case (Cons x xs)
  show ?case
  proof (cases "x = c")
    case True
    with Cons show ?thesis by simp
  next
    case False
    obtain m where m: "emit_run c k r n = replicate m c" "m < k"
      using emit_run_small [OF rk] by blast
    have "re_sub_runs c k r 0 (replicate m c @ x # re_sub_runs c k r 0 xs)
            = re_sub_runs c k r (0 + m) (x # re_sub_runs c k r 0 xs)"
      by (rule re_sub_runs_replicate)
    also have "\<dots> = replicate m c @ x # re_sub_runs c k r 0 xs"
      using False m Cons.IH [of 0] by (simp add: emit_run_def)
    finally show ?thesis using False m by simp
  qed
qed

lemma collapse_newlines_idem:
  "collapse_newlines (collapse_newlines s) = collapse_newlines s"
  by (simp add: collapse_newlines_def re_sub_runs_idem)

lemma emit_run_space: "emit_run 32 2 1 n = (if n = 0 then [] else [32])"
  by (cases n) (auto simp add: emit_run_def)

lemma emit_run_space_Suc: "emit_run 32 2 (Suc 0) n = (if n = 0 then [] else [32])"
  using emit_run_space [of n] by simp

lemma collapse_spaces_pending_id:
  "successively (\<lambda>a b. \<not> (a = 32 \<and> b = 32)) (replicate n 32 @ s) \<Longrightarrow> n \<le> 1 \<Longrightarrow>
   re_sub_runs 32 2 1 n s = replicate n 32 @ s"
proof (induction s arbitrary: n)
  case Nil
  then show ?case by (cases n) (auto simp add: emit_run_space emit_run_space_Suc)
next
  case (Cons x xs)
  show ?case
  proof (cases "x = 32")
    case True
    have n0: "n = 0"
    proof (rule ccontr)
      assume "n \<noteq> 0"
      with Cons.prems have "n = 1" by simp
      with Cons.prems(1) True show False by simp
    qed
    with Cons.prems True have "successively (\<lambda>a b. \<not> (a = 32 \<and> b = 32)) (replicate (Suc 0) 32 @ xs)"
      by simp
    from Cons.IH [OF this] n0 True show ?thesis by simp
  next
    case False
    from Cons.prems have "successively (\<lambda>a b. \<not> (a = 32 \<and> b = 32)) (x # xs)"
      by (simp add: successively_append_iff)
    then have "successively (\<lambda>a b. \<not> (a = 32 \<and> b = 32)) (replicate 0 32 @ xs)"
      by (auto simp add: successively_Cons)
    from Cons.IH [OF this] False Cons.prems(2) show ?thesis
      by (cases n) (auto simp add: emit_run_space emit_run_space_Suc)
  qed
qed

lemma collapse_spaces_id: "no_double_space s \<Longrightarrow> collapse_spaces s = s"
  using collapse_spaces_pending_id [of 0 s] by (simp add: no_double_space_def collapse_spaces_def)

lemma no_double_space_re_sub_runs:
  "successively (\<lambda>a b. \<not> (a = 32 \<and> b = 32)) (re_sub_runs 32 2 1 n s)"
proof (induction s arbitrary: n)
  case Nil
  show ?case by (simp add: emit_run_space emit_run_space_Suc)
next
  case (Cons x xs)
  show ?case
  proof (cases "x = 32")
    case True
    with Cons show ?thesis by simp
  next
    case False
    have "successively (\<lambda>a b. \<not> (a = 32 \<and> b = 32)) (x # re_sub_runs 32 2 1 0 xs)"
      using False Cons.IH [of 0] by (auto simp add: successively_Cons)
    with False show ?thesis by (auto simp add: emit_run_space emit_run_space_Suc successively_Cons)
  qed
qed

lemma no_double_space_collapse_spaces: "no_double_space (collapse_spaces s)"
  unfolding no_double_space_def collapse_spaces_def by (rule no_double_space_re_sub_runs)

lemma split_on_nonempty: "split_on sep s \<noteq> []"
  by (induction s) (auto split: list.splits)

lemma join_Cons_hd: "join sep ((c # l) # ls) = c # join sep (l # ls)"
  by (cases ls) simp_all

lemma join_Nil_hd: "ls \<noteq> [] \<Longrightarrow> join sep ([] # ls) = sep @ join sep ls"
  by (cases ls) simp_all

lemma join_split_on: "join [sep] (split_on sep s) = s"
proof (induction s)
  case Nil
  show ?case by simp
next
  case (Cons c cs)
  show ?case
  proof (cases "c = sep")
    case True
    have "join [sep] ([] # split_on sep cs) = [sep] @ join [sep] (split_on sep cs)"
      by (rule join_Nil_hd) (rule split_on_nonempty)
    with Cons True show ?thesis by simp
  next
    case False
    obtain l ls where l: "split_on sep cs = l # ls"
      using split_on_nonempty [of sep cs] by (cases "split_on sep cs") auto
    have "join [sep] ((c # l) # ls) = c # join [sep] (l # ls)" by (rule join_Cons_hd)
    with Cons False l show ?thesis by simp
  qed
qed

lemma split_on_no_sep: "sep \<notin> set s \<Longrightarrow> split_on sep s = [s]"
  by (induction s) auto

lemma split_on_append_sep:
  "sep \<notin> set a \<Longrightarrow> split_on sep (a @ sep # b) = a # split_on sep b"
  by (induction a) auto

lemma split_at_first:
  assumes "sep \<in> set s"
  shows "\<exists>a b. s = a @ sep # b \<and> sep \<notin> set a"
  using assms by (meson split_list_first)

lemma split_on_lines:
  assumes last: "\<And>a. sep \<notin> set a \<Longrightarrow> Q a \<Longrightarrow> L a"
    and step: "\<And>a b. sep \<notin> set a \<Longrightarrow> Q (a @ sep # b) \<Longrightarrow> L a \<and> Q b"
  shows "Q s \<Longrightarrow> \<forall>l \<in> set (split_on sep s). L l"
proof (induction s rule: length_induct)
  case (1 s)
  show ?case
  proof (cases "sep \<in> set s")
    case False
    have "L s" using False "1.prems" by (rule last)
    then show ?thesis using False by (simp add: split_on_no_sep)
  next
    case True
    from split_at_first [OF True]
    obtain a b where s: "s = a @ sep # b" and a: "sep \<notin> set a"
      by (elim exE conjE)
    have "Q (a @ sep # b)" using "1.prems" unfolding s .
    with a have "L a \<and> Q b" by (rule step)
    then have La: "L a" and Qb: "Q b" by blast+
    have lt: "length b < length s" unfolding s by simp
    have "\<forall>l \<in> set (split_on sep b). L l"
      using "1.IH" lt Qb by blast
    moreover have "split_on sep s = a # split_on sep b"
      unfolding s using a by (rule split_on_append_sep)
    ultimately show ?thesis using La by simp
  qed
qed

lemma split_on_line_no_sep: "\<forall>l \<in> set (split_on sep s). sep \<notin> set l"
  by (rule split_on_lines [where Q = "\<lambda>s. True"]) simp_all

lemma split_on_line_successively:
  "successively R s \<Longrightarrow> \<forall>l \<in> set (split_on sep s). successively R l"
  by (rule split_on_lines [where Q = "successively R"])
     (auto simp add: successively_append_iff successively_Cons)

lemma strip_Nil: "strip [] = []"
  by (simp add: strip_def)

lemma strip_id: "trimmed s \<Longrightarrow> strip s = s"
proof (cases "s = []")
  case True
  then show ?thesis by (simp add: strip_Nil)
next
  case False
  assume "trimmed s"
  with False show ?thesis by (simp add: trimmed_def strip_nonspace_ends)
qed

lemma rev_dropWhile_decomp:
  "xs = rev (dropWhile P (rev xs)) @ rev (takeWhile P (rev xs))"
proof -
  have "rev xs = takeWhile P (rev xs) @ dropWhile P (rev xs)" by simp
  then have "rev (rev xs) = rev (takeWhile P (rev xs) @ dropWhile P (rev xs))"
    by (rule arg_cong)
  then show ?thesis by (simp only: rev_rev_ident rev_append)
qed

lemma strip_suffix:
  "dropWhile isspace s = strip s @ rev (takeWhile isspace (rev (dropWhile isspace s)))"
  unfolding strip_def by (rule rev_dropWhile_decomp)

lemma strip_decomp:
  "\<exists>a b. s = a @ strip s @ b"
proof -
  have "takeWhile isspace s @ (strip s @ rev (takeWhile isspace (rev (dropWhile isspace s))))
          = takeWhile isspace s @ dropWhile isspace s"
    by (simp only: strip_suffix [symmetric])
  then have "s = takeWhile isspace s @ strip s
      @ rev (takeWhile isspace (rev (dropWhile isspace s)))"
    by (simp only: takeWhile_dropWhile_id)
  then show ?thesis by blast
qed

lemma strip_successively: "successively R s \<Longrightarrow> successively R (strip s)"
proof -
  assume a: "successively R s"
  obtain x y where "s = x @ strip s @ y" using strip_decomp by blast
  with a have "successively R (x @ strip s @ y)" by simp
  then show ?thesis by (simp add: successively_append_iff)
qed

lemma set_strip: "set (strip s) \<subseteq> set s"
proof -
  obtain x y where xy: "s = x @ strip s @ y" using strip_decomp by blast
  have "set (strip s) \<subseteq> set (x @ strip s @ y)" by auto
  with xy show ?thesis by simp
qed

lemma strip_trimmed: "trimmed (strip s)"
proof (cases "strip s = []")
  case True
  then show ?thesis by (simp add: trimmed_def)
next
  case False
  let ?d = "dropWhile isspace s"
  let ?e = "dropWhile isspace (rev ?d)"
  have e: "?e \<noteq> []" using False by (simp add: strip_def)
  then have he: "\<not> isspace (hd ?e)" by (rule hd_dropWhile)
  have l: "last (strip s) = hd ?e" using e by (simp add: strip_def last_rev)
  have d: "?d \<noteq> []"
  proof
    assume "?d = []"
    then have "?e = dropWhile isspace (rev [])" by (rule arg_cong)
    then have "?e = []" by (simp only: rev.simps dropWhile.simps)
    from this e show False by blast
  qed
  then have hd: "\<not> isspace (hd ?d)" by (rule hd_dropWhile)
  have "hd ?d = hd (strip s @ rev (takeWhile isspace (rev ?d)))"
    by (rule arg_cong [OF strip_suffix])
  also have "\<dots> = hd (strip s)" using False by simp
  finally have "hd ?d = hd (strip s)" .
  with hd he l False show ?thesis by (simp add: trimmed_def)
qed

lemma blank_10: "\<not> blank 10"
  by (simp add: blank_def)

lemma not_blank_not_space: "\<not> blank c \<Longrightarrow> c \<noteq> 10 \<Longrightarrow> \<not> isspace c"
  by (simp add: blank_def)

lemma not_space_not_blank: "\<not> isspace c \<Longrightarrow> \<not> blank c"
  by (simp add: blank_def)

lemma tight_lines_trimmed:
  assumes "tight s" "trimmed s"
  shows "\<forall>l \<in> set (split_on 10 s). trimmed l"
proof -
  let ?T = "\<lambda>a b. \<not> (a = 10 \<and> blank b) \<and> \<not> (blank a \<and> b = 10)"
  let ?Q = "\<lambda>s. successively ?T s \<and> (s = [] \<or> (\<not> blank (hd s) \<and> \<not> blank (last s)))"
  have last: "\<And>a. (10::nat) \<notin> set a \<Longrightarrow> ?Q a \<Longrightarrow> trimmed a"
  proof -
    fix a :: pystr assume a: "10 \<notin> set a" and q: "?Q a"
    show "trimmed a"
    proof (cases "a = []")
      case True
      then show ?thesis by (simp add: trimmed_def)
    next
      case False
      then have "hd a \<in> set a" "last a \<in> set a" by simp_all
      with a have "hd a \<noteq> 10" "last a \<noteq> 10" by auto
      with q False show ?thesis by (simp add: trimmed_def not_blank_not_space)
    qed
  qed
  have step: "\<And>a b. (10::nat) \<notin> set a \<Longrightarrow> ?Q (a @ 10 # b) \<Longrightarrow> trimmed a \<and> ?Q b"
  proof -
    fix a b :: pystr assume a: "10 \<notin> set a" and q: "?Q (a @ 10 # b)"
    from q have sa: "successively ?T a" and sb: "successively ?T (10 # b)"
      and j: "a = [] \<or> ?T (last a) 10"
      by (simp_all add: successively_append_iff)
    from q have ends: "\<not> blank (hd (a @ 10 # b))" "\<not> blank (last (a @ 10 # b))" by simp_all
    have ta: "trimmed a"
    proof (cases "a = []")
      case True
      then show ?thesis by (simp add: trimmed_def)
    next
      case False
      then have "hd a \<in> set a" "last a \<in> set a" by simp_all
      with a have ne: "hd a \<noteq> 10" "last a \<noteq> 10" by auto
      from False ends have "\<not> blank (hd a)" by simp
      moreover from False j have "\<not> blank (last a)" by simp
      ultimately show ?thesis using ne False by (simp add: trimmed_def not_blank_not_space)
    qed
    have qb: "?Q b"
    proof (cases "b = []")
      case True
      then show ?thesis by simp
    next
      case False
      from sb False have "successively ?T b" "?T 10 (hd b)"
        by (simp_all add: successively_Cons)
      moreover from ends False have "\<not> blank (last b)" by simp
      ultimately show ?thesis by simp
    qed
    from ta qb show "trimmed a \<and> ?Q b" ..
  qed
  have q: "?Q s" using assms by (auto simp add: tight_def trimmed_def not_space_not_blank)
  show ?thesis
    by (rule split_on_lines [where Q = ?Q and L = trimmed and sep = 10, OF _ _ q])
       (erule (1) last, erule (1) step)
qed

lemma strip_lines_id:
  assumes "tight s" "trimmed s"
  shows "map strip (split_on 10 s) = split_on 10 s"
  using tight_lines_trimmed [OF assms] by (simp add: map_idI strip_id)

lemma trimmed_collapse_newlines:
  assumes "trimmed s"
  shows "trimmed (collapse_newlines s)"
proof (cases "s = []")
  case True
  then show ?thesis by (simp add: collapse_newlines_def emit_run_def trimmed_def)
next
  case False
  with assms have h: "\<not> isspace (hd s)" and l: "\<not> isspace (last s)"
    by (simp_all add: trimmed_def)
  from l have "last s \<noteq> 10" using isspace_10 by auto
  with re_sub_runs_last [of 3 s 10 2 0] False
  have a: "re_sub_runs 10 3 2 0 s \<noteq> []" "last (re_sub_runs 10 3 2 0 s) = last s" by simp_all
  from re_sub_runs_hd [of 2 3 s 10] False
  have b: "hd (re_sub_runs 10 3 2 0 s) = hd s" by simp
  from a b h l show ?thesis by (simp add: trimmed_def collapse_newlines_def)
qed

lemma tight_collapse_newlines: "tight s \<Longrightarrow> tight (collapse_newlines s)"
  unfolding tight_def collapse_newlines_def
  by (rule successively_re_sub_runs) (simp_all add: blank_10)

lemma no_double_space_collapse_newlines:
  "no_double_space s \<Longrightarrow> no_double_space (collapse_newlines s)"
  unfolding no_double_space_def collapse_newlines_def
  by (rule successively_re_sub_runs) simp_all

lemma clean_text_normal:
  assumes "trimmed y" "tight y" "no_double_space y"
  shows "clean_text y = collapse_newlines y"
proof (cases "y = []")
  case True
  then show ?thesis by (simp add: clean_text_def collapse_newlines_def emit_run_def)
next
  case False
  let ?y1 = "collapse_newlines y"
  have t: "trimmed ?y1" using assms(1) by (rule trimmed_collapse_newlines)
  have g: "tight ?y1" using assms(2) by (rule tight_collapse_newlines)
  have n: "no_double_space ?y1" using assms(3) by (rule no_double_space_collapse_newlines)
  have 2: "collapse_spaces ?y1 = ?y1" using n by (rule collapse_spaces_id)
  have 3: "map strip (split_on 10 ?y1) = split_on 10 ?y1" using g t by (rule strip_lines_id)
  have 4: "join [10] (split_on 10 ?y1) = ?y1" by (rule join_split_on)
  have 5: "strip ?y1 = ?y1" using t by (rule strip_id)
  show ?thesis using False by (simp add: clean_text_def Let_def 2 3 4 5)
qed

lemma hd_join:
  "y \<noteq> [] \<Longrightarrow> join sep (y # ys) \<noteq> [] \<and> hd (join sep (y # ys)) = hd y"
  by (cases ys) simp_all

lemma successively_join:
  assumes line: "\<forall>l \<in> set ls. successively R l"
    and ends: "\<forall>l \<in> set ls. l \<noteq> [] \<longrightarrow> R (last l) 10 \<and> R 10 (hd l)"
    and nn: "R 10 10"
  shows "successively R (join [10] ls)"
  using line ends
proof (induction "[10::nat]" ls rule: join.induct)
  case 1
  show ?case by simp
next
  case (2 x)
  then show ?case by simp
next
  case (3 x y ys)
  let ?J = "join [10] (y # ys)"
  have J: "successively R ?J" using 3 by simp
  have hJ: "?J = [] \<or> R 10 (hd ?J)"
  proof (cases "y = []")
    case True
    show ?thesis
    proof (cases ys)
      case Nil
      with True show ?thesis by simp
    next
      case (Cons z zs)
      with True nn show ?thesis by simp
    qed
  next
    case False
    with "3.prems"(2) have "R 10 (hd y)" by simp
    with hd_join [OF False, of "[10]" ys] show ?thesis by simp
  qed
  have sJ: "successively R (10 # ?J)" using J hJ by (auto simp add: successively_Cons)
  have x: "successively R x" using "3.prems"(1) by simp
  have xl: "x = [] \<or> R (last x) 10" using "3.prems"(2) by auto
  have "join [10] (x # y # ys) = x @ 10 # ?J" by simp
  moreover have "successively R (x @ 10 # ?J)"
    using x sJ xl by (auto simp add: successively_append_iff)
  ultimately show ?case by simp
qed

lemma tight_no_newline:
  "10 \<notin> set l \<Longrightarrow>
   successively (\<lambda>a b. \<not> (a = 10 \<and> blank b) \<and> \<not> (blank a \<and> b = 10)) l"
proof (induction l)
  case Nil
  show ?case by simp
next
  case (Cons x xs)
  then show ?case by (cases xs) (auto simp add: successively_Cons)
qed

lemma clean_text_is_normal:
  "trimmed (clean_text x) \<and> tight (clean_text x) \<and> no_double_space (clean_text x)"
proof (cases "x = []")
  case True
  then show ?thesis
    by (simp add: clean_text_def trimmed_def tight_def no_double_space_def)
next
  case False
  define t2 where "t2 = collapse_spaces (collapse_newlines x)"
  define ls where "ls = map strip (split_on 10 t2)"
  have y: "clean_text x = strip (join [10] ls)"
    using False by (simp add: clean_text_def Let_def ls_def t2_def)
  have t: "trimmed (clean_text x)" unfolding y by (rule strip_trimmed)
  have nd2: "successively (\<lambda>a b. \<not> (a = 32 \<and> b = 32)) t2"
    using no_double_space_collapse_spaces [of "collapse_newlines x"]
    by (simp add: t2_def no_double_space_def)
  have ndl: "\<forall>l \<in> set ls. successively (\<lambda>a b. \<not> (a = 32 \<and> b = 32)) l"
    using split_on_line_successively [OF nd2, of 10]
    by (auto simp add: ls_def intro: strip_successively)
  have "successively (\<lambda>a b. \<not> (a = 32 \<and> b = 32)) (join [10] ls)"
    using ndl by (rule successively_join) simp_all
  then have n: "no_double_space (clean_text x)"
    unfolding y no_double_space_def by (rule strip_successively)
  have nl: "\<forall>l \<in> set ls. 10 \<notin> set l"
    using split_on_line_no_sep [of 10 t2] set_strip by (auto simp add: ls_def)
  have tr: "\<forall>l \<in> set ls. trimmed l"
    by (auto simp add: ls_def strip_trimmed)
  have "successively (\<lambda>a b. \<not> (a = 10 \<and> blank b) \<and> \<not> (blank a \<and> b = 10)) (join [10] ls)"
  proof (rule successively_join)
    show "\<forall>l \<in> set ls. successively (\<lambda>a b. \<not> (a = 10 \<and> blank b) \<and> \<not> (blank a \<and> b = 10)) l"
    proof (rule ballI)
      fix l assume "l \<in> set ls"
      with nl have "10 \<notin> set l" by blast
      then show "successively (\<lambda>a b. \<not> (a = 10 \<and> blank b) \<and> \<not> (blank a \<and> b = 10)) l"
        by (rule tight_no_newline)
    qed
    show "\<forall>l \<in> set ls. l \<noteq> [] \<longrightarrow>
            (\<not> (last l = 10 \<and> blank 10) \<and> \<not> (blank (last l) \<and> (10::nat) = 10))
            \<and> (\<not> ((10::nat) = 10 \<and> blank (hd l)) \<and> \<not> (blank 10 \<and> hd l = 10))"
      using tr by (auto simp add: trimmed_def blank_def)
    show "\<not> ((10::nat) = 10 \<and> blank 10) \<and> \<not> (blank 10 \<and> (10::nat) = 10)"
      by (simp add: blank_10)
  qed
  then have g: "tight (clean_text x)"
    unfolding y tight_def by (rule strip_successively)
  from t g n show ?thesis by blast
qed

lemma clean_text_twice: "clean_text (clean_text x) = collapse_newlines (clean_text x)"
  using clean_text_is_normal [of x] by (simp add: clean_text_normal)

lemma triple_newline_Cons: "triple_newline t \<Longrightarrow> triple_newline (x # t)"
  by (cases t rule: triple_newline.cases) auto

lemma triple_newline_append: "triple_newline t \<Longrightarrow> triple_newline (a @ t)"
  by (induction a) (simp_all add: triple_newline_Cons)

lemma triple_newline_replicate: "3 \<le> n \<Longrightarrow> triple_newline (replicate n 10 @ t)"
proof -
  assume "3 \<le> n"
  then obtain m where "n = Suc (Suc (Suc m))"
    by (metis Suc_le_D numeral_3_eq_3 Suc_le_mono)
  then show ?thesis by (simp add: triple_newline_append replicate_app_Cons_same)
qed

lemma no_triple_pending:
  "\<not> triple_newline (replicate n 10 @ s) \<Longrightarrow> re_sub_runs 10 3 2 n s = replicate n 10 @ s"
proof (induction s arbitrary: n)
  case Nil
  then have "\<not> 3 \<le> n" using triple_newline_replicate [of n "[]"] by auto
  then show ?case by (simp add: emit_run_def)
next
  case (Cons x xs)
  show ?case
  proof (cases "x = 10")
    case True
    have "replicate (Suc n) 10 @ xs = replicate n 10 @ 10 # xs"
      by (simp add: replicate_app_Cons_same)
    with Cons.prems True have "\<not> triple_newline (replicate (Suc n) 10 @ xs)" by simp
    from Cons.IH [OF this] True show ?thesis by (simp add: replicate_app_Cons_same)
  next
    case False
    have n: "\<not> 3 \<le> n" using triple_newline_replicate [of n "x # xs"] Cons.prems by auto
    have "\<not> triple_newline xs"
      using Cons.prems triple_newline_append [of xs "replicate n 10 @ [x]"] by auto
    then have "\<not> triple_newline (replicate 0 10 @ xs)" by simp
    from Cons.IH [OF this] False n show ?thesis by (simp add: emit_run_def)
  qed
qed

lemma collapse_newlines_id: "\<not> triple_newline s \<Longrightarrow> collapse_newlines s = s"
  using no_triple_pending [of 0 s] by (simp add: collapse_newlines_def)

lemma replicate_2: "replicate 2 x = [x, x]"
  by (simp add: numeral_2_eq_2)

lemma isspace_examples: "isspace 10" "isspace 32" "\<not> isspace 97" "\<not> isspace 98" "\<not> isspace 99"
  by (simp_all add: isspace_def)

text \<open>
  Claim C2, as stated, fails: the lines that hold only whitespace become empty after the
  newlines have been collapsed. The text of the characters a, newline, space, newline,
  space, newline, b is normalized to a, three newlines, b; a second application gives
  a, two newlines, b.
\<close>

theorem clean_text_not_idempotent_counterexample:
  "clean_text blank_lines_text = u ''a'' @ [10, 10, 10] @ u ''b''
   \<and> clean_text (clean_text blank_lines_text) = u ''a'' @ [10, 10] @ u ''b''
   \<and> clean_text (clean_text blank_lines_text) \<noteq> clean_text blank_lines_text"
proof -
  have 1: "clean_text blank_lines_text = u ''a'' @ [10, 10, 10] @ u ''b''"
    by (simp add: blank_lines_text_def clean_text_def collapse_newlines_def collapse_spaces_def
        emit_run_def strip_def isspace_examples u_def replicate_2)
  have 2: "clean_text (u ''a'' @ [10, 10, 10] @ u ''b'') = u ''a'' @ [10, 10] @ u ''b''"
    by (simp add: clean_text_def collapse_newlines_def collapse_spaces_def
        emit_run_def strip_def isspace_examples u_def replicate_2)
  show ?thesis unfolding 1 2 by (simp add: u_def)
qed

text \<open>
  Claim C2, amended. The normalizer applies its four rules in the stated order. For
  every input \<open>x\<close>, normalizing twice gives the normalized text with each run of three or
  more newlines collapsed to two; a third application changes nothing; and when the
  normalized text holds no three newlines in a row, normalizing it again returns it
  unchanged.
\<close>

theorem clean_text_fixed_after_two:
  "clean_text (clean_text x) = collapse_newlines (clean_text x)
   \<and> clean_text (clean_text (clean_text x)) = clean_text (clean_text x)
   \<and> (\<not> triple_newline (clean_text x) \<longrightarrow> clean_text (clean_text x) = clean_text x)"
proof -
  have 1: "clean_text (clean_text x) = collapse_newlines (clean_text x)"
    by (rule clean_text_twice)
  have "clean_text (clean_text (clean_text x)) = collapse_newlines (clean_text (clean_text x))"
    by (rule clean_text_twice)
  also have "\<dots> = collapse_newlines (collapse_newlines (clean_text x))"
    by (simp only: 1)
  also have "\<dots> = collapse_newlines (clean_text x)" by (rule collapse_newlines_idem)
  also have "\<dots> = clean_text (clean_text x)" by (simp only: 1)
  finally have 2: "clean_text (clean_text (clean_text x)) = clean_text (clean_text x)" .
  have 3: "\<not> triple_newline (clean_text x) \<longrightarrow> clean_text (clean_text x) = clean_text x"
    using 1 by (simp add: collapse_newlines_id)
  from 1 2 3 show ?thesis by blast
qed

theorem clean_text_fixed_after_two_witness:
  "clean_text paragraphs_text = u ''a b'' @ [10, 10] @ u ''c''
   \<and> \<not> triple_newline (clean_text paragraphs_text)
   \<and> clean_text (clean_text paragraphs_text) = clean_text paragraphs_text"
proof -
  have 1: "clean_text paragraphs_text = u ''a b'' @ [10, 10] @ u ''c''"
    by (simp add: paragraphs_text_def clean_text_def collapse_newlines_def collapse_spaces_def
        emit_run_def strip_def isspace_examples u_def replicate_2)
  have 2: "\<not> triple_newline (clean_text paragraphs_text)"
    unfolding 1 by (simp add: u_def)
  from clean_text_fixed_after_two [of paragraphs_text] 2
  have "clean_text (clean_text paragraphs_text) = clean_text paragraphs_text" by blast
  with 1 2 show ?thesis by blast
qed

end
